theory Spec2Isabelle
  imports Main
begin

section \<open>JavaScript values\<close>

text \<open>
  The worker of \<^verbatim>\<open>src/worker.js\<close> is dynamically typed: its options, the job
  payload, the errors a task raises and the environment variables are arbitrary
  JavaScript values. They are modelled by \<open>jsval\<close>.

  \<^item> Numbers are the integer-valued numbers and \<open>NaN\<close>; fractions, infinities
    and magnitudes beyond \<open>2^53\<close> are outside the model.
  \<^item> An object is its class and its own properties in insertion order. The classes are
    the ones \<^verbatim>\<open>worker.js\<close> and the promise library tell apart: plain objects,
    functions, and the error classes \<^verbatim>\<open>Error\<close> (a direct instance, whose
    prototype is \<^verbatim>\<open>Error.prototype\<close>), \<^verbatim>\<open>TypeError\<close>, bluebird's
    \<^verbatim>\<open>Promise.TimeoutError\<close> and \<^verbatim>\<open>Promise.OperationalError\<close> and
    error-cat's \<^verbatim>\<open>WorkerStopError\<close>. Arrays, getters, frozen objects, stack
    traces, the enumerability of properties and user subclasses are outside the model.
\<close>

datatype jsnum = Fin int | NaN

datatype jsclass = PlainObject | FunctionObject | ErrorObject | TypeErrorObject
  | TimeoutErrorObject | WorkerStopErrorObject | OperationalErrorObject

datatype jsval = JUndefined | JNull | JBool bool | JNum jsnum | JStr string
  | JObj jsclass "(string \<times> jsval) list"

type_synonym props = "(string \<times> jsval) list"

text \<open>\<^verbatim>\<open>obj[k]\<close>, \<^verbatim>\<open>k in obj\<close> and \<^verbatim>\<open>obj[k] = v\<close> on the own properties of an object.\<close>

fun lookup :: "props \<Rightarrow> string \<Rightarrow> jsval" where
  "lookup [] k = JUndefined"
| "lookup ((k', v) # ps) k = (if k' = k then v else lookup ps k)"

fun has_key :: "props \<Rightarrow> string \<Rightarrow> bool" where
  "has_key [] k = False"
| "has_key ((k', v) # ps) k = (k' = k \<or> has_key ps k)"

fun assign :: "props \<Rightarrow> string \<Rightarrow> jsval \<Rightarrow> props" where
  "assign [] k v = [(k, v)]"
| "assign ((k', v') # ps) k v = (if k' = k then (k, v) # ps else (k', v') # assign ps k v)"

text \<open>Truthiness (\<^verbatim>\<open>ToBoolean\<close>), as used by \<^verbatim>\<open>if\<close>, \<^verbatim>\<open>!\<close> and \<^verbatim>\<open>||\<close>.\<close>

fun truthy :: "jsval \<Rightarrow> bool" where
  "truthy JUndefined = False"
| "truthy JNull = False"
| "truthy (JBool b) = b"
| "truthy (JNum (Fin n)) = (n \<noteq> 0)"
| "truthy (JNum NaN) = False"
| "truthy (JStr s) = (s \<noteq> [])"
| "truthy (JObj c ps) = True"

definition js_or :: "jsval \<Rightarrow> jsval \<Rightarrow> jsval" where
  "js_or a b = (if truthy a then a else b)"

text \<open>
  A \<^verbatim>\<open>TypeError\<close> raised by the engine (its message is engine-specific and left out),
  and \<^verbatim>\<open>new Error(message)\<close>.
\<close>

definition type_error :: jsval where
  "type_error = JObj TypeErrorObject []"

definition new_Error :: "string \<Rightarrow> jsval" where
  "new_Error message = JObj ErrorObject [(''message'', JStr message)]"

text \<open>
  Member access \<^verbatim>\<open>v.k\<close> and strict-mode member assignment \<^verbatim>\<open>v.k = x\<close>, for the
  property names the worker uses (\<^verbatim>\<open>tid\<close>, \<^verbatim>\<open>cause\<close>, \<^verbatim>\<open>data\<close>,
  \<^verbatim>\<open>queue\<close>, \<^verbatim>\<open>job\<close>), none of which is a built-in property of a primitive.
  \<open>Inl\<close> is the error thrown: reading a member of \<^verbatim>\<open>undefined\<close> or
  \<^verbatim>\<open>null\<close> throws, and under \<^verbatim>\<open>'use strict'\<close> so does creating a property
  on a primitive.
\<close>

fun get_member :: "jsval \<Rightarrow> string \<Rightarrow> jsval + jsval" where
  "get_member JUndefined k = Inl type_error"
| "get_member JNull k = Inl type_error"
| "get_member (JObj c ps) k = Inr (lookup ps k)"
| "get_member (JBool b) k = Inr JUndefined"
| "get_member (JNum x) k = Inr JUndefined"
| "get_member (JStr s) k = Inr JUndefined"

fun set_member :: "jsval \<Rightarrow> string \<Rightarrow> jsval \<Rightarrow> jsval + jsval" where
  "set_member (JObj c ps) k x = Inr (JObj c (assign ps k x))"
| "set_member JUndefined k x = Inl type_error"
| "set_member JNull k x = Inl type_error"
| "set_member (JBool b) k x = Inl type_error"
| "set_member (JNum n) k x = Inl type_error"
| "set_member (JStr s) k x = Inl type_error"

fun instanceof :: "jsval \<Rightarrow> jsclass \<Rightarrow> bool" where
  "instanceof (JObj c ps) c' = (c = c')"
| "instanceof JUndefined c' = False"
| "instanceof JNull c' = False"
| "instanceof (JBool b) c' = False"
| "instanceof (JNum n) c' = False"
| "instanceof (JStr s) c' = False"

subsection \<open>Numbers and strings\<close>

definition digit_char :: "nat \<Rightarrow> char" where
  "digit_char d = char_of (48 + d)"

fun nat_to_string :: "nat \<Rightarrow> string" where
  "nat_to_string n =
     (if n < 10 then [digit_char n] else nat_to_string (n div 10) @ [digit_char (n mod 10)])"

declare nat_to_string.simps [simp del]

definition int_to_string :: "int \<Rightarrow> string" where
  "int_to_string i = (if i < 0 then ''-'' @ nat_to_string (nat (- i)) else nat_to_string (nat i))"

text \<open>\<^verbatim>\<open>ToString\<close> of a primitive.\<close>

fun to_string :: "jsval \<Rightarrow> string" where
  "to_string JUndefined = ''undefined''"
| "to_string JNull = ''null''"
| "to_string (JBool b) = (if b then ''true'' else ''false'')"
| "to_string (JNum NaN) = ''NaN''"
| "to_string (JNum (Fin i)) = int_to_string i"
| "to_string (JStr s) = s"
| "to_string (JObj c ps) = ''[object Object]''"

definition is_white :: "char \<Rightarrow> bool" where
  "is_white c = (c \<in> set [CHR '' '', CHR 0x09, CHR 0x0A, CHR 0x0B, CHR 0x0C, CHR 0x0D])"

definition digit_value :: "char \<Rightarrow> nat option" where
  "digit_value c =
     (let n = (of_char c :: nat)
      in if 48 \<le> n \<and> n \<le> 57 then Some (n - 48)
         else if 97 \<le> n \<and> n \<le> 122 then Some (n - 87)
         else if 65 \<le> n \<and> n \<le> 90 then Some (n - 55)
         else None)"

fun radix_digits :: "nat \<Rightarrow> string \<Rightarrow> nat list" where
  "radix_digits R [] = []"
| "radix_digits R (c # cs) =
     (case digit_value c of
        Some d \<Rightarrow> if d < R then d # radix_digits R cs else []
      | None \<Rightarrow> [])"

definition digits_value :: "nat \<Rightarrow> nat list \<Rightarrow> nat" where
  "digits_value R ds = foldl (\<lambda>acc d. acc * R + d) 0 ds"

text \<open>
  \<^verbatim>\<open>parseInt(string, radix)\<close> of ECMAScript on a string; radix \<open>0\<close> stands for an
  absent radix. Leading white space is skipped, a sign is read, a \<^verbatim>\<open>0x\<close> prefix
  switches to radix 16 when the radix is absent or 16, and the longest prefix of digits is
  the value; no digit at all gives \<open>NaN\<close>.
\<close>

definition parseInt_string :: "string \<Rightarrow> nat \<Rightarrow> jsnum" where
  "parseInt_string inputString radix =
     (let S = dropWhile is_white inputString;
          sign = (if take 1 S = ''-'' then - 1 else 1 :: int);
          S1 = (if take 1 S = ''+'' \<or> take 1 S = ''-'' then drop 1 S else S);
          stripPrefix = (radix = 0 \<or> radix = 16);
          hex = (stripPrefix \<and> (take 2 S1 = ''0x'' \<or> take 2 S1 = ''0X''));
          S2 = (if hex then drop 2 S1 else S1);
          R = (if hex then 16 else if radix = 0 then 10 else radix);
          Z = radix_digits R S2
      in if radix \<noteq> 0 \<and> (radix < 2 \<or> 36 < radix) then NaN
         else if Z = [] then NaN
         else Fin (sign * int (digits_value R Z)))"

text \<open>
  \<^verbatim>\<open>parseInt(v, radix)\<close> converts \<open>v\<close> to a string first. The worker calls it with
  radix 10 and with no radix, where the string form of an object (it starts with
  \<^verbatim>\<open>[\<close>, a letter or \<^verbatim>\<open>(\<close>) has no leading digit.
\<close>

fun parseInt :: "jsval \<Rightarrow> nat \<Rightarrow> jsnum" where
  "parseInt (JObj c ps) radix = NaN"
| "parseInt v radix = parseInt_string (to_string v) radix"

text \<open>
  \<^verbatim>\<open>ToNumber\<close>. Of the numeric strings only the decimal integers are in the
  model: optional white space around an optionally signed run of decimal digits; the
  empty string is 0.
\<close>

definition string_to_number :: "string \<Rightarrow> jsnum" where
  "string_to_number s =
     (let t = rev (dropWhile is_white (rev (dropWhile is_white s)));
          sign = (if take 1 t = ''-'' then - 1 else 1 :: int);
          ds = (if take 1 t = ''+'' \<or> take 1 t = ''-'' then drop 1 t else t)
      in if t = [] then Fin 0
         else if ds \<noteq> [] \<and> radix_digits 10 ds \<noteq> [] \<and> length (radix_digits 10 ds) = length ds
           then Fin (sign * int (digits_value 10 (radix_digits 10 ds)))
         else NaN)"

fun to_num :: "jsval \<Rightarrow> jsnum" where
  "to_num JUndefined = NaN"
| "to_num JNull = Fin 0"
| "to_num (JBool b) = Fin (if b then 1 else 0)"
| "to_num (JNum x) = x"
| "to_num (JStr s) = string_to_number s"
| "to_num (JObj c ps) = NaN"

text \<open>Arithmetic and comparison of numbers: \<open>NaN\<close> is contagious and compares false.\<close>

fun num_lt :: "jsnum \<Rightarrow> jsnum \<Rightarrow> bool" where
  "num_lt (Fin a) (Fin b) = (a < b)"
| "num_lt NaN y = False"
| "num_lt (Fin a) NaN = False"

fun num_add :: "jsnum \<Rightarrow> jsnum \<Rightarrow> jsnum" where
  "num_add (Fin a) (Fin b) = Fin (a + b)"
| "num_add NaN y = NaN"
| "num_add (Fin a) NaN = NaN"

fun num_mul :: "jsnum \<Rightarrow> jsnum \<Rightarrow> jsnum" where
  "num_mul (Fin a) (Fin b) = Fin (a * b)"
| "num_mul NaN y = NaN"
| "num_mul (Fin a) NaN = NaN"

text \<open>The value \<^verbatim>\<open>x++\<close> leaves in \<open>x\<close>.\<close>

definition increment :: "jsval \<Rightarrow> jsval" where
  "increment x = JNum (num_add (to_num x) (Fin 1))"

subsection \<open>The helpers of the \<^verbatim>\<open>101\<close> library\<close>

text \<open>
  \<^verbatim>\<open>exists\<close>: neither \<^verbatim>\<open>undefined\<close> nor \<^verbatim>\<open>null\<close>.
  \<^verbatim>\<open>isObject\<close>: \<^verbatim>\<open>typeof v === 'object'\<close>, existing, and not an array, regular
  expression or boxed primitive; a function is not an object in this sense, an error is.
  \<^verbatim>\<open>isNumber\<close>: a number that is not \<open>NaN\<close>.
\<close>

fun exists :: "jsval \<Rightarrow> bool" where
  "exists JUndefined = False"
| "exists JNull = False"
| "exists v = True"

fun isObject :: "jsval \<Rightarrow> bool" where
  "isObject (JObj c ps) = (c \<noteq> FunctionObject)"
| "isObject v = False"

fun isNumber :: "jsnum \<Rightarrow> bool" where
  "isNumber (Fin n) = True"
| "isNumber NaN = False"

text \<open>
  \<^verbatim>\<open>pick(obj, keys)\<close> copies the listed keys that are \<^verbatim>\<open>in\<close> the object to a new
  object. \<^verbatim>\<open>defaults(target, source)\<close> assigns, for every key of the source,
  \<^verbatim>\<open>target[key] = exists(target[key]) ? target[key] : source[key]\<close>.
  \<^verbatim>\<open>put(obj, extra)\<close> (imported as \<^verbatim>\<open>merge\<close>) is a copy of the object with
  the keys of \<open>extra\<close> set.
\<close>

definition pick :: "props \<Rightarrow> string list \<Rightarrow> props" where
  "pick obj keys =
     foldl (\<lambda>out key. if has_key obj key then assign out key (lookup obj key) else out) [] keys"

definition defaults :: "props \<Rightarrow> props \<Rightarrow> props" where
  "defaults target source =
     foldl (\<lambda>t (key, v). assign t key (if exists (lookup t key) then lookup t key else v))
       target source"

definition merge :: "props \<Rightarrow> props \<Rightarrow> props" where
  "merge obj extra = foldl (\<lambda>out (key, v). assign out key v) obj extra"

section \<open>The worker and its surroundings\<close>

text \<open>
  What the worker calls out to is recorded as a trace of events, in the order of the calls:
  the logger (level and message; the payload and the bindings of child loggers are left
  out), \<^verbatim>\<open>monitor.increment\<close> and \<^verbatim>\<open>monitor.timer\<close> of monitor-dog with their
  tags, the timer's \<^verbatim>\<open>stop\<close>, the task (with the job it is given), the completion
  callback \<^verbatim>\<open>done\<close>, \<^verbatim>\<open>errorCat.report\<close> and \<^verbatim>\<open>Promise.delay\<close> (with the
  number of milliseconds, \<^verbatim>\<open>+ms\<close>). The sinks are taken not to throw. The
  continuation-local storage that carries \<^verbatim>\<open>tid\<close> is not modelled.
\<close>

datatype event =
    Log string string
  | Increment string props
  | TimerStart string props
  | TimerStop
  | CallTask jsval
  | CallDone
  | Report jsval
  | Delay jsnum

text \<open>
  What a call of the task does: return a value (or a promise fulfilled with it), throw
  (or return a promise rejected with) a reason, or stay unsettled: not settle before the
  timeout fires when one is armed, never settle otherwise. The completion callback returns
  a value or fails.
\<close>

datatype task_result = Returns jsval | Throws jsval | Unsettled

datatype done_result = DoneReturns jsval | DoneThrows jsval

text \<open>
  The host: the environment variables the worker reads (\<open>None\<close> when unset), the value
  the \<^verbatim>\<open>error-cat\<close> module exports, the identifier \<^verbatim>\<open>uuid()\<close> returns, and the
  behaviour of the task and of the completion callback as a function of the number of
  calls made before.
\<close>

record host =
  WORKER_TIMEOUT :: "string option"
  WORKER_MIN_RETRY_DELAY :: "string option"
  WORKER_MAX_RETRY_DELAY :: "string option"
  WORKER_MONITOR_DISABLED :: "string option"
  errorCat_module :: jsval
  uuid :: string
  task_behaviour :: "nat \<Rightarrow> task_result"
  done_behaviour :: "nat \<Rightarrow> done_result"

fun process_env :: "string option \<Rightarrow> jsval" where
  "process_env None = JUndefined"
| "process_env (Some s) = JStr s"

text \<open>The fields of a \<^verbatim>\<open>Worker\<close> instance (\<open>done'\<close> is the field \<^verbatim>\<open>done\<close>).\<close>

record worker =
  attempt :: jsval
  done' :: jsval
  errorCat :: jsval
  job :: jsval
  log :: jsval
  msTimeout :: jsval
  queue :: jsval
  retryDelay :: jsval
  runNow :: jsval
  task :: jsval
  tid :: jsval

definition task_calls :: "event list \<Rightarrow> nat" where
  "task_calls tr = length (filter (\<lambda>e. case e of CallTask j \<Rightarrow> True | _ \<Rightarrow> False) tr)"

definition done_calls :: "event list \<Rightarrow> nat" where
  "done_calls tr = length (filter (\<lambda>e. e = CallDone) tr)"

fun reports :: "event list \<Rightarrow> jsval list" where
  "reports [] = []"
| "reports (Report e # tr) = e # reports tr"
| "reports (x # tr) = reports tr"

fun delays :: "event list \<Rightarrow> jsnum list" where
  "delays [] = []"
| "delays (Delay d # tr) = d # delays tr"
| "delays (x # tr) = delays tr"

subsection \<open>Telemetry tags: \<^verbatim>\<open>_eventTags\<close>, \<^verbatim>\<open>_incMonitor\<close>, \<^verbatim>\<open>_createTimer\<close>\<close>

text \<open>\<^verbatim>\<open>String.prototype.split\<close> on a one-character separator.\<close>

fun split_on :: "char \<Rightarrow> string \<Rightarrow> string list" where
  "split_on c [] = [[]]"
| "split_on c (x # xs) =
     (if x = c then [] # split_on c xs
      else (case split_on c xs of t # ts \<Rightarrow> (x # t) # ts | [] \<Rightarrow> [[x]]))"

text \<open>
  The \<^verbatim>\<open>reduce\<close> of \<^verbatim>\<open>_eventTags\<close>: the remaining tokens, the current index, the
  variable \<^verbatim>\<open>lastToken\<close> and the accumulator.
\<close>

fun tokens_reduce :: "string list \<Rightarrow> nat \<Rightarrow> string \<Rightarrow> props \<Rightarrow> props" where
  "tokens_reduce [] currentIndex lastToken acc = acc"
| "tokens_reduce (currentValue # rest) currentIndex lastToken acc =
     (let key = ''token'' @ nat_to_string currentIndex;
          newToken = (if currentIndex = 0 then currentValue
                      else currentValue @ ''.'' @ lastToken)
      in tokens_reduce rest (Suc currentIndex) newToken (assign acc key (JStr newToken)))"

definition eventTags :: "string \<Rightarrow> props" where
  "eventTags q =
     (let tokens = rev (split_on CHR ''.'' q);
          tags = tokens_reduce tokens 0 [] []
      in assign tags ''queue'' (JStr q))"

definition monitor_disabled :: "host \<Rightarrow> bool" where
  "monitor_disabled h = truthy (process_env (WORKER_MONITOR_DISABLED h))"

definition incMonitor :: "host \<Rightarrow> string \<Rightarrow> string \<Rightarrow> props option \<Rightarrow> event list" where
  "incMonitor h q eventName extraTags =
     (if monitor_disabled h then []
      else [Increment eventName
              (case extraTags of None \<Rightarrow> eventTags q | Some extra \<Rightarrow> merge (eventTags q) extra)])"

definition createTimer :: "host \<Rightarrow> string \<Rightarrow> event list" where
  "createTimer h q =
     (if \<not> monitor_disabled h then [TimerStart ''ponos.timer'' (eventTags q)] else [])"

definition timer_stop :: "host \<Rightarrow> event list" where
  "timer_stop h = (if \<not> monitor_disabled h then [TimerStop] else [])"

subsection \<open>The constructor\<close>

definition required_fields :: "string list" where
  "required_fields = [''done'', ''job'', ''log'', ''queue'', ''task'']"

text \<open>The \<^verbatim>\<open>forEach\<close> over the required fields: the first missing one throws.\<close>

fun check_required :: "props \<Rightarrow> string list \<Rightarrow> jsval option" where
  "check_required opts [] = None"
| "check_required opts (f # fs) =
     (if \<not> exists (lookup opts f) then Some (new_Error (f @ '' is required for a Worker''))
      else check_required opts fs)"

text \<open>The array \<^verbatim>\<open>fields\<close> after the \<^verbatim>\<open>push\<close>: the options that are kept.\<close>

definition picked_fields :: "string list" where
  "picked_fields = required_fields @ [''errorCat'', ''log'', ''msTimeout'', ''runNow'']"

definition option_defaults :: "host \<Rightarrow> props" where
  "option_defaults h =
     [(''errorCat'', errorCat_module h),
      (''runNow'', JBool True),
      (''attempt'', JNum (Fin 0)),
      (''msTimeout'', js_or (process_env (WORKER_TIMEOUT h)) (JNum (Fin 0))),
      (''retryDelay'', js_or (process_env (WORKER_MIN_RETRY_DELAY h)) (JNum (Fin 1)))]"

text \<open>\<^verbatim>\<open>Object.assign(this, opts)\<close> after \<^verbatim>\<open>this.tid\<close> was set.\<close>

text \<open>
  The options after \<^verbatim>\<open>opts = pick(opts, fields)\<close> and
  \<^verbatim>\<open>defaults(opts, {...})\<close>.
\<close>

definition picked_opts :: "host \<Rightarrow> props \<Rightarrow> props" where
  "picked_opts h opts0 = defaults (pick opts0 picked_fields) (option_defaults h)"

definition assign_this :: "jsval \<Rightarrow> props \<Rightarrow> worker" where
  "assign_this t opts =
     \<lparr> attempt = lookup opts ''attempt'',
       done' = lookup opts ''done'',
       errorCat = lookup opts ''errorCat'',
       job = lookup opts ''job'',
       log = lookup opts ''log'',
       msTimeout = lookup opts ''msTimeout'',
       queue = lookup opts ''queue'',
       retryDelay = lookup opts ''retryDelay'',
       runNow = lookup opts ''runNow'',
       task = lookup opts ''task'',
       tid = t \<rparr>"

text \<open>
  The constructor up to the point where it calls \<^verbatim>\<open>run\<close>: the events it causes, and
  the error it throws (\<open>Inl\<close>) or the instance it has initialised (\<open>Inr\<close>).
\<close>

definition construct :: "host \<Rightarrow> props \<Rightarrow> event list \<times> (jsval + worker)" where
  "construct h opts0 =
     (case check_required opts0 required_fields of
        Some err \<Rightarrow> ([], Inl err)
      | None \<Rightarrow>
          (let opts = picked_opts h opts0
           in case get_member (lookup opts ''job'') ''tid'' of
                Inl err \<Rightarrow> ([], Inl err)
              | Inr job_tid \<Rightarrow>
                  (let this = assign_this (js_or job_tid (JStr (uuid h))) opts;
                       tr = [Log ''info'' ''Worker created''];
                       ms = parseInt (msTimeout this) 10
                   in if \<not> isNumber ms
                        then (tr, Inl (new_Error ''Provided `msTimeout` is not an integer''))
                      else if num_lt ms (Fin 0)
                        then (tr, Inl (new_Error ''Provided `msTimeout` is negative''))
                      else (tr, Inr (this\<lparr>msTimeout := JNum ms\<rparr>)))))"

subsection \<open>\<^verbatim>\<open>run\<close>\<close>

text \<open>
  The state of a promise once nothing more will happen to it: fulfilled with a value,
  rejected with a reason, or pending for ever.
\<close>

datatype settle = Fulfilled jsval | Rejected jsval | Pending

text \<open>
  \<^verbatim>\<open>Promise.try(() => this.task(this.job))\<close>, with \<^verbatim>\<open>.timeout(this.msTimeout)\<close>
  when \<^verbatim>\<open>this.msTimeout\<close> is truthy; \<open>n\<close> is the number of calls of the task made
  before.
\<close>

definition timeout_error :: jsval where
  "timeout_error = JObj TimeoutErrorObject [(''message'', JStr ''operation timed out'')]"

definition taskPromise :: "host \<Rightarrow> worker \<Rightarrow> nat \<Rightarrow> settle" where
  "taskPromise h this n =
     (case task_behaviour h n of
        Returns result \<Rightarrow> Fulfilled result
      | Throws err \<Rightarrow> Rejected err
      | Unsettled \<Rightarrow> if truthy (msTimeout this) then Rejected timeout_error else Pending)"

text \<open>
  The handlers of \<^verbatim>\<open>run\<close> are not attached to the task promise but to
  \<^verbatim>\<open>Promise.fromCallback((cb) => ... taskPromise.asCallback(cb) ...)\<close>. Both
  functions are bluebird's and are not part of the source; they are modelled from what
  bluebird 3 does to a rejection on that path.

  \<^item> \<open>errorAdapter\<close> (in \<^verbatim>\<open>asCallback\<close>): a falsy reason is passed to the callback
    as \<^verbatim>\<open>new Error(reason + '')\<close> whose \<^verbatim>\<open>cause\<close> is the reason.
  \<^item> \<open>maybeWrapAsError\<close>: a primitive error becomes \<^verbatim>\<open>new Error(String(err))\<close>.
  \<^item> \<open>wrapAsOperationalError\<close>: a direct instance of \<^verbatim>\<open>Error\<close> is wrapped in an
    \<^verbatim>\<open>OperationalError\<close> that has the error as its \<^verbatim>\<open>cause\<close>, its name and
    message, and its other own properties; any other object is handed on as it is, with
    \<^verbatim>\<open>isOperational\<close> set.
  \<^item> \<open>nodeback\<close>: the callback \<^verbatim>\<open>cb(err, value)\<close> of \<^verbatim>\<open>fromCallback\<close> rejects
    when \<^verbatim>\<open>err\<close> is truthy and fulfils otherwise.

  \<open>attemptPromise\<close> is the promise the handlers are attached to.
\<close>

definition errorAdapter :: "jsval \<Rightarrow> jsval" where
  "errorAdapter reason =
     (if \<not> truthy reason
      then JObj ErrorObject [(''message'', JStr (to_string reason)), (''cause'', reason)]
      else reason)"

definition maybeWrapAsError :: "jsval \<Rightarrow> jsval" where
  "maybeWrapAsError err = (case err of JObj c ps \<Rightarrow> err | _ \<Rightarrow> new_Error (to_string err))"

definition isUntypedError :: "jsval \<Rightarrow> bool" where
  "isUntypedError obj = (case obj of JObj c ps \<Rightarrow> c = ErrorObject | _ \<Rightarrow> False)"

definition inherited :: "props \<Rightarrow> string \<Rightarrow> jsval \<Rightarrow> jsval" where
  "inherited ps k v = (if has_key ps k then lookup ps k else v)"

definition wrapAsOperationalError :: "jsval \<Rightarrow> jsval" where
  "wrapAsOperationalError obj =
     (case obj of
        JObj c ps \<Rightarrow>
          if isUntypedError obj
          then JObj OperationalErrorObject
                 (foldl (\<lambda>ret (k, v). assign ret k v)
                    [(''name'', inherited ps ''name'' (JStr ''Error'')),
                     (''message'', inherited ps ''message'' (JStr [])),
                     (''cause'', obj),
                     (''isOperational'', JBool True)]
                    (filter (\<lambda>(k, v). k \<notin> set [''name'', ''message'', ''stack'', ''cause'']) ps))
          else JObj c (assign ps ''isOperational'' (JBool True))
      | _ \<Rightarrow> obj)"

definition nodeback :: "jsval \<Rightarrow> jsval \<Rightarrow> settle" where
  "nodeback err val =
     (if truthy err then Rejected (wrapAsOperationalError (maybeWrapAsError err))
      else Fulfilled val)"

definition fromCallback :: "settle \<Rightarrow> settle" where
  "fromCallback p =
     (case p of
        Fulfilled val \<Rightarrow> nodeback JNull val
      | Rejected reason \<Rightarrow> nodeback (errorAdapter reason) JUndefined
      | Pending \<Rightarrow> Pending)"

definition attemptPromise :: "host \<Rightarrow> worker \<Rightarrow> nat \<Rightarrow> settle" where
  "attemptPromise h this n = fromCallback (taskPromise h this n)"

text \<open>\<^verbatim>\<open>return this.done()\<close>: the promise takes the outcome of the callback.\<close>

definition call_done :: "host \<Rightarrow> event list \<Rightarrow> event list \<times> settle" where
  "call_done h tr =
     (tr @ [CallDone],
      case done_behaviour h (done_calls tr) of
        DoneReturns v \<Rightarrow> Fulfilled v
      | DoneThrows err \<Rightarrow> Rejected err)"

text \<open>\<^verbatim>\<open>.then((result) => ...)\<close>\<close>

definition then_success :: "host \<Rightarrow> string \<Rightarrow> event list \<times> settle \<Rightarrow> event list \<times> settle" where
  "then_success h q s =
     (case s of
        (tr, Fulfilled result) \<Rightarrow>
          call_done h (tr @ [Log ''info'' ''Task complete'']
                          @ incMonitor h q ''ponos.finish'' (Some [(''result'', JStr ''success'')]))
      | (tr, p) \<Rightarrow> (tr, p))"

text \<open>\<^verbatim>\<open>.catch(TimeoutError, (err) => ...)\<close>: logs, counts and throws the same error.\<close>

definition catch_TimeoutError ::
  "host \<Rightarrow> string \<Rightarrow> event list \<times> settle \<Rightarrow> event list \<times> settle" where
  "catch_TimeoutError h q s =
     (case s of
        (tr, Rejected err) \<Rightarrow>
          if instanceof err TimeoutErrorObject
          then (tr @ [Log ''warn'' ''Task timed out'']
                   @ incMonitor h q ''ponos.finish'' (Some [(''result'', JStr ''timeout-error'')]),
                Rejected err)
          else (tr, Rejected err)
      | (tr, p) \<Rightarrow> (tr, p))"

text \<open>
  The second \<^verbatim>\<open>.catch((err) => ...)\<close>, statement by statement. \<open>Inl\<close> is the
  \<^verbatim>\<open>TypeError\<close> of a member access that failed.

  \<^item> \<open>unwrap_cause\<close>: \<^verbatim>\<open>if (err.cause) { err = err.cause }\<close>
  \<^item> \<open>ensure_data\<close>: \<^verbatim>\<open>if (!isObject(err.data)) { err.data = {} }\<close>
  \<^item> \<open>fill_data err k v\<close>: \<^verbatim>\<open>if (!err.data[k]) { err.data[k] = v }\<close>, for
    \<^verbatim>\<open>queue\<close> and for \<^verbatim>\<open>job\<close>

  \<open>normalize_err this err\<close> is what the handler throws: the error it has normalised, or
  the \<^verbatim>\<open>TypeError\<close>.
\<close>

definition unwrap_cause :: "jsval \<Rightarrow> jsval + jsval" where
  "unwrap_cause err =
     (case get_member err ''cause'' of
        Inl thrown \<Rightarrow> Inl thrown
      | Inr cause \<Rightarrow> Inr (if truthy cause then cause else err))"

definition ensure_data :: "jsval \<Rightarrow> jsval + jsval" where
  "ensure_data err =
     (case get_member err ''data'' of
        Inl thrown \<Rightarrow> Inl thrown
      | Inr data \<Rightarrow>
          if \<not> isObject data then set_member err ''data'' (JObj PlainObject []) else Inr err)"

definition fill_data :: "jsval \<Rightarrow> string \<Rightarrow> jsval \<Rightarrow> jsval + jsval" where
  "fill_data err k v =
     (case get_member err ''data'' of
        Inl thrown \<Rightarrow> Inl thrown
      | Inr data \<Rightarrow>
          (case get_member data k of
             Inl thrown \<Rightarrow> Inl thrown
           | Inr current \<Rightarrow>
               if \<not> truthy current
               then (case set_member data k v of
                       Inl thrown \<Rightarrow> Inl thrown
                     | Inr data' \<Rightarrow> set_member err ''data'' data')
               else Inr err))"

definition normalize_err :: "worker \<Rightarrow> jsval \<Rightarrow> jsval" where
  "normalize_err this err0 =
     (case unwrap_cause err0 of
        Inl thrown \<Rightarrow> thrown
      | Inr err \<Rightarrow>
          (case ensure_data err of
             Inl thrown \<Rightarrow> thrown
           | Inr err1 \<Rightarrow>
               (case fill_data err1 ''queue'' (queue this) of
                  Inl thrown \<Rightarrow> thrown
                | Inr err2 \<Rightarrow>
                    (case fill_data err2 ''job'' (job this) of
                       Inl thrown \<Rightarrow> thrown
                     | Inr err3 \<Rightarrow> err3))))"

definition catch_normalize :: "worker \<Rightarrow> event list \<times> settle \<Rightarrow> event list \<times> settle" where
  "catch_normalize this s =
     (case s of
        (tr, Rejected err) \<Rightarrow> (tr, Rejected (normalize_err this err))
      | (tr, p) \<Rightarrow> (tr, p))"

text \<open>\<^verbatim>\<open>.catch(WorkerStopError, (err) => ...)\<close>\<close>

definition catch_WorkerStopError ::
  "host \<Rightarrow> string \<Rightarrow> event list \<times> settle \<Rightarrow> event list \<times> settle" where
  "catch_WorkerStopError h q s =
     (case s of
        (tr, Rejected err) \<Rightarrow>
          if instanceof err WorkerStopErrorObject
          then call_done h (tr @ [Log ''error'' ''Worker task fatally errored'']
                               @ incMonitor h q ''ponos.finish'' (Some [(''result'', JStr ''fatal-error'')])
                               @ [Report err])
          else (tr, Rejected err)
      | (tr, p) \<Rightarrow> (tr, p))"

text \<open>
  One attempt: from the entry of \<^verbatim>\<open>run\<close> to the promise that reaches the last
  \<^verbatim>\<open>.catch\<close>. \<^verbatim>\<open>this.attempt++\<close> happens before the task is called.
\<close>

definition attempt_task ::
  "host \<Rightarrow> string \<Rightarrow> worker \<Rightarrow> event list \<Rightarrow> worker \<times> event list \<times> settle" where
  "attempt_task h q this tr =
     (let tr1 = tr @ incMonitor h q ''ponos'' None @ createTimer h q;
          this1 = this\<lparr>attempt := increment (attempt this)\<rparr>;
          tr2 = tr1 @ [Log ''info'' ''running task'', CallTask (job this1)];
          p = attemptPromise h this1 (task_calls tr1);
          s = catch_WorkerStopError h q
                (catch_normalize this1
                  (catch_TimeoutError h q
                    (then_success h q (tr2, p))))
      in (this1, fst s, snd s))"

text \<open>
  The update of the retry delay after the delay has elapsed:
  \<^verbatim>\<open>const retryDelay = parseInt(process.env.WORKER_MAX_RETRY_DELAY) || 0\<close>, then
  \<^verbatim>\<open>if (this.retryDelay < retryDelay) { this.retryDelay *= 2 }\<close>. The right operand of
  \<^verbatim>\<open><\<close> is a number, so the comparison is numeric.
\<close>

definition max_retry_delay :: "host \<Rightarrow> jsnum" where
  "max_retry_delay h =
     to_num (js_or (JNum (parseInt (process_env (WORKER_MAX_RETRY_DELAY h)) 0)) (JNum (Fin 0)))"

definition next_retryDelay :: "host \<Rightarrow> jsval \<Rightarrow> jsval" where
  "next_retryDelay h d =
     (if num_lt (to_num d) (max_retry_delay h) then JNum (num_mul (to_num d) (Fin 2)) else d)"

text \<open>
  What a call of \<^verbatim>\<open>run\<close> comes to: it throws before it has a promise (the queue
  is not a string, so \<^verbatim>\<open>this.queue.split\<close> is not a function), or it returns a
  promise.
\<close>

datatype run_result = Threw jsval | Promise settle

text \<open>\<^verbatim>\<open>.finally(() => { if (timer) { timer.stop() } })\<close> on the promise of the last handler.\<close>

fun finally_stop :: "host \<Rightarrow> event list \<Rightarrow> run_result \<Rightarrow> event list \<times> run_result" where
  "finally_stop h tr (Promise Pending) = (tr, Promise Pending)"
| "finally_stop h tr (Promise (Fulfilled v)) = (tr @ timer_stop h, Promise (Fulfilled v))"
| "finally_stop h tr (Promise (Rejected err)) = (tr @ timer_stop h, Promise (Rejected err))"
| "finally_stop h tr (Threw err) = (tr @ timer_stop h, Promise (Rejected err))"

text \<open>
  \<^verbatim>\<open>run\<close> retries without bound, so the model takes fuel: the number of attempts it
  may make. \<open>None\<close> is fuel exhausted; \<open>Some\<close> is the instance, the trace and the
  outcome once the promise \<^verbatim>\<open>run\<close> returned has settled or can no longer settle.
\<close>

fun run :: "nat \<Rightarrow> host \<Rightarrow> worker \<Rightarrow> event list \<Rightarrow> (worker \<times> event list \<times> run_result) option" where
  "run 0 h this tr = None"
| "run (Suc fuel) h this tr =
     (case queue this of
        JStr q \<Rightarrow>
          (case attempt_task h q this tr of
             (this1, tr1, Rejected err) \<Rightarrow>
               (let tr2 = tr1 @ [Log ''warn'' ''Task failed, retrying'']
                              @ incMonitor h q ''ponos.finish'' (Some [(''result'', JStr ''task-error'')])
                              @ [Report err, Delay (to_num (retryDelay this1))];
                    this2 = this1\<lparr>retryDelay := next_retryDelay h (retryDelay this1)\<rparr>
                in case run fuel h this2 tr2 of
                     None \<Rightarrow> None
                   | Some (this3, tr3, r) \<Rightarrow>
                       Some (this3, fst (finally_stop h tr3 r), snd (finally_stop h tr3 r)))
           | (this1, tr1, p) \<Rightarrow>
               Some (this1, fst (finally_stop h tr1 (Promise p)), snd (finally_stop h tr1 (Promise p))))
      | _ \<Rightarrow> Some (this, tr, Threw type_error))"

text \<open>
  \<^verbatim>\<open>new Worker(opts)\<close> together with the run it starts: \<open>Inl\<close> is the error the
  constructor throws, \<open>Inr\<close> the instance and, when \<^verbatim>\<open>runNow\<close> is truthy, the outcome
  of the promise of \<^verbatim>\<open>run\<close>.
\<close>

definition new_Worker ::
  "nat \<Rightarrow> host \<Rightarrow> props \<Rightarrow> (event list \<times> (jsval + worker \<times> settle option)) option" where
  "new_Worker fuel h opts =
     (case construct h opts of
        (tr, Inl err) \<Rightarrow> Some (tr, Inl err)
      | (tr, Inr this) \<Rightarrow>
          if truthy (runNow this)
          then (case run fuel h this tr of
                  None \<Rightarrow> None
                | Some (this', tr', Threw err) \<Rightarrow> Some (tr', Inl err)
                | Some (this', tr', Promise p) \<Rightarrow> Some (tr', Inr (this', Some p)))
          else Some (tr, Inr (this, None)))"

subsection \<open>Reference notions used in the statements\<close>


text \<open>
  The events of the branches of \<^verbatim>\<open>run\<close>: on entry up to the call of the task, of
  the \<^verbatim>\<open>.then\<close> handler before it calls \<^verbatim>\<open>done\<close>, of the
  \<^verbatim>\<open>TimeoutError\<close> handler (none unless the error is one), of the
  \<^verbatim>\<open>WorkerStopError\<close> handler before it calls \<^verbatim>\<open>done\<close>, and of a whole
  attempt that ends in the last \<^verbatim>\<open>.catch\<close>, up to the delay.
\<close>

definition entry_events :: "host \<Rightarrow> string \<Rightarrow> worker \<Rightarrow> event list" where
  "entry_events h q this =
     incMonitor h q ''ponos'' None @ createTimer h q
     @ [Log ''info'' ''running task'', CallTask (job this)]"

definition success_events :: "host \<Rightarrow> string \<Rightarrow> event list" where
  "success_events h q =
     [Log ''info'' ''Task complete'']
     @ incMonitor h q ''ponos.finish'' (Some [(''result'', JStr ''success'')])"

definition timeout_events :: "host \<Rightarrow> string \<Rightarrow> jsval \<Rightarrow> event list" where
  "timeout_events h q err =
     (if instanceof err TimeoutErrorObject
      then [Log ''warn'' ''Task timed out'']
           @ incMonitor h q ''ponos.finish'' (Some [(''result'', JStr ''timeout-error'')])
      else [])"

definition fatal_events :: "host \<Rightarrow> string \<Rightarrow> jsval \<Rightarrow> event list" where
  "fatal_events h q err =
     [Log ''error'' ''Worker task fatally errored'']
     @ incMonitor h q ''ponos.finish'' (Some [(''result'', JStr ''fatal-error'')])
     @ [Report err]"

definition retry_events :: "host \<Rightarrow> string \<Rightarrow> worker \<Rightarrow> jsval \<Rightarrow> event list" where
  "retry_events h q this err =
     entry_events h q this @ timeout_events h q err
     @ [Log ''warn'' ''Task failed, retrying'']
     @ incMonitor h q ''ponos.finish'' (Some [(''result'', JStr ''task-error'')])
     @ [Report (normalize_err this err), Delay (to_num (retryDelay this))]"

text \<open>
  The instance when \<^verbatim>\<open>run\<close> is entered again after a retry, and what the
  \<^verbatim>\<open>.finally\<close> of the outer call does to the result of the inner call.
\<close>

definition retry_state :: "host \<Rightarrow> worker \<Rightarrow> worker" where
  "retry_state h this =
     this\<lparr>attempt := increment (attempt this), retryDelay := next_retryDelay h (retryDelay this)\<rparr>"

definition unwind1 ::
  "host \<Rightarrow> (worker \<times> event list \<times> run_result) option \<Rightarrow> (worker \<times> event list \<times> run_result) option" where
  "unwind1 h x =
     (case x of
        None \<Rightarrow> None
      | Some (w, t, r) \<Rightarrow> Some (w, fst (finally_stop h t r), snd (finally_stop h t r)))"

text \<open>
  The \<open>n\<close>-th call of the task ends in the last \<^verbatim>\<open>.catch\<close> (the attempt is
  retried); the reason the promise of the \<open>n\<close>-th call is rejected with; the
  \<^verbatim>\<open>cause\<close> property of a raised value (\<^verbatim>\<open>undefined\<close> for a primitive); the
  reason the handlers receive when the task promise is rejected with \<open>e\<close>; and the
  retry delay, as a number, after \<open>i\<close> updates.
\<close>

definition retryable :: "host \<Rightarrow> worker \<Rightarrow> nat \<Rightarrow> bool" where
  "retryable h this n =
     (case attemptPromise h this n of
        Rejected err \<Rightarrow> \<not> instanceof (normalize_err this err) WorkerStopErrorObject
      | _ \<Rightarrow> False)"

definition rejection :: "host \<Rightarrow> worker \<Rightarrow> nat \<Rightarrow> jsval" where
  "rejection h this n = (case attemptPromise h this n of Rejected err \<Rightarrow> err | _ \<Rightarrow> JUndefined)"


definition handed_on :: "jsval \<Rightarrow> jsval" where
  "handed_on e = wrapAsOperationalError (maybeWrapAsError (errorAdapter e))"

definition retry_delay_after :: "host \<Rightarrow> jsval \<Rightarrow> nat \<Rightarrow> jsnum" where
  "retry_delay_after h d i = to_num ((next_retryDelay h ^^ i) d)"

text \<open>
  The number of entries of the two handlers that call \<^verbatim>\<open>done\<close> in a trace, and the
  retry delay as a recurrence on integers: \<open>backoff m c i\<close> is the delay after \<open>i\<close>
  updates that start from \<open>c\<close> under the maximum \<open>m\<close>.
\<close>

definition terminal_logs :: "event list \<Rightarrow> nat" where
  "terminal_logs tr =
     count_list tr (Log ''info'' ''Task complete'')
     + count_list tr (Log ''error'' ''Worker task fatally errored'')"

fun backoff :: "int \<Rightarrow> int \<Rightarrow> nat \<Rightarrow> int" where
  "backoff m c 0 = c"
| "backoff m c (Suc i) = (if backoff m c i < m then backoff m c i * 2 else backoff m c i)"

subsection \<open>Example inputs\<close>

text \<open>
  A host with no environment variable set but \<^verbatim>\<open>WORKER_MONITOR_DISABLED\<close>, whose
  task and completion callback return at once, and the options of a minimal worker.
\<close>

definition example_host :: host where
  "example_host =
     \<lparr> WORKER_TIMEOUT = None, WORKER_MIN_RETRY_DELAY = None, WORKER_MAX_RETRY_DELAY = None,
       WORKER_MONITOR_DISABLED = Some ''1'', errorCat_module = JObj PlainObject [],
       uuid = ''fresh-uuid'',
       task_behaviour = (\<lambda>n. Returns JUndefined),
       done_behaviour = (\<lambda>n. DoneReturns JUndefined) \<rparr>"

definition example_opts :: props where
  "example_opts =
     [(''done'', JObj FunctionObject []),
      (''job'', JObj PlainObject [(''tid'', JStr ''t7'')]),
      (''log'', JObj PlainObject []),
      (''queue'', JStr ''a.b''),
      (''task'', JObj FunctionObject [])]"

text \<open>
  The instance the constructor builds from these options, a generic error and a
  \<^verbatim>\<open>WorkerStopError\<close>.
\<close>

definition example_worker :: worker where
  "example_worker =
     \<lparr> attempt = JNum (Fin 0), done' = JObj FunctionObject [],
       errorCat = JObj PlainObject [],
       job = JObj PlainObject [(''tid'', JStr ''t7'')],
       log = JObj PlainObject [], msTimeout = JNum (Fin 0),
       queue = JStr ''a.b'', retryDelay = JNum (Fin 1),
       runNow = JBool True, task = JObj FunctionObject [],
       tid = JStr ''t7'' \<rparr>"

definition boom :: jsval where
  "boom = JObj ErrorObject [(''message'', JStr ''boom'')]"

definition stop :: jsval where
  "stop = JObj WorkerStopErrorObject [(''message'', JStr ''stop'')]"

text \<open>
  Hosts whose task fails \<open>K\<close> times with the generic error before it returns, fails
  fatally, never settles, or always fails; a host whose completion callback throws the
  first time it is called; and a host with a minimum delay of 3 and a maximum of 5 whose
  task fails three times.
\<close>

definition flaky_host :: "nat \<Rightarrow> host" where
  "flaky_host K =
     example_host\<lparr>task_behaviour := (\<lambda>n. if n < K then Throws boom else Returns JUndefined)\<rparr>"

definition fatal_host :: host where
  "fatal_host = example_host\<lparr>task_behaviour := (\<lambda>n. Throws stop)\<rparr>"

definition stalled_host :: host where
  "stalled_host = example_host\<lparr>task_behaviour := (\<lambda>n. Unsettled)\<rparr>"

definition always_failing_host :: host where
  "always_failing_host = example_host\<lparr>task_behaviour := (\<lambda>n. Throws boom)\<rparr>"

definition failing_done_host :: host where
  "failing_done_host =
     example_host\<lparr>done_behaviour := (\<lambda>n. if n = 0 then DoneThrows boom else DoneReturns JUndefined)\<rparr>"

definition backoff_host :: host where
  "backoff_host =
     example_host\<lparr>WORKER_MIN_RETRY_DELAY := Some ''3'', WORKER_MAX_RETRY_DELAY := Some ''5'',
                   task_behaviour := (\<lambda>n. if n < 3 then Throws boom else Returns JUndefined)\<rparr>"





definition fatal_failing_done_host :: host where
  "fatal_failing_done_host =
     fatal_host\<lparr>done_behaviour := (\<lambda>n. if n = 0 then DoneThrows boom else DoneReturns JUndefined)\<rparr>"

definition stop_with_cause_host :: host where
  "stop_with_cause_host =
     example_host\<lparr>task_behaviour :=
       (\<lambda>n. if n < 1 then Throws (JObj WorkerStopErrorObject [(''cause'', boom)])
            else Returns JUndefined)\<rparr>"


section \<open>Telemetry tags\<close>












section \<open>The constructor\<close>

lemma lookup_assign: "lookup (assign ps k v) k' = (if k = k' then v else lookup ps k')"
  by (induction ps) auto

lemma lookup_no_key: "\<not> has_key ps k \<Longrightarrow> lookup ps k = JUndefined"
  by (induction ps) auto

lemma lookup_pick_foldl:
  "lookup (foldl (\<lambda>out key. if has_key obj key then assign out key (lookup obj key) else out)
             acc keys) k
   = (if k \<in> set keys \<and> has_key obj k then lookup obj k else lookup acc k)"
  by (induction keys arbitrary: acc) (auto simp: lookup_assign)

lemma lookup_pick: "lookup (pick obj keys) k = (if k \<in> set keys then lookup obj k else JUndefined)"
  by (auto simp: pick_def lookup_pick_foldl lookup_no_key)


lemma picked_opts_required:
  "k \<in> set required_fields \<Longrightarrow> lookup (picked_opts h opts0) k = lookup opts0 k"
  by (auto simp: picked_opts_def defaults_def option_defaults_def lookup_assign lookup_pick
      picked_fields_def required_fields_def)

lemma picked_opts_attempt: "lookup (picked_opts h opts0) ''attempt'' = JNum (Fin 0)"
  by (simp add: picked_opts_def defaults_def option_defaults_def lookup_assign lookup_pick
      picked_fields_def required_fields_def)

lemma picked_opts_retryDelay:
  "lookup (picked_opts h opts0) ''retryDelay'' = js_or (process_env (WORKER_MIN_RETRY_DELAY h)) (JNum (Fin 1))"
  by (simp add: picked_opts_def defaults_def option_defaults_def lookup_assign lookup_pick
      picked_fields_def required_fields_def)

lemma picked_opts_msTimeout:
  "lookup (picked_opts h opts0) ''msTimeout'' =
     (if exists (lookup opts0 ''msTimeout'') then lookup opts0 ''msTimeout''
      else js_or (process_env (WORKER_TIMEOUT h)) (JNum (Fin 0)))"
  by (simp add: picked_opts_def defaults_def option_defaults_def lookup_assign lookup_pick
      picked_fields_def required_fields_def)

lemma picked_opts_runNow:
  "lookup (picked_opts h opts0) ''runNow'' =
     (if exists (lookup opts0 ''runNow'') then lookup opts0 ''runNow'' else JBool True)"
  by (simp add: picked_opts_def defaults_def option_defaults_def lookup_assign lookup_pick
      picked_fields_def required_fields_def)

lemma picked_opts_errorCat:
  "lookup (picked_opts h opts0) ''errorCat'' =
     (if exists (lookup opts0 ''errorCat'') then lookup opts0 ''errorCat'' else errorCat_module h)"
  by (simp add: picked_opts_def defaults_def option_defaults_def lookup_assign lookup_pick
      picked_fields_def required_fields_def)




lemma check_required_cong:
  "(\<forall>k \<in> set fs. lookup a k = lookup b k) \<Longrightarrow> check_required a fs = check_required b fs"
  by (induction fs) simp_all

lemma construct_eq:
  "construct h opts0 =
     (case check_required opts0 required_fields of
        Some err \<Rightarrow> ([], Inl err)
      | None \<Rightarrow>
          (case get_member (lookup opts0 ''job'') ''tid'' of
             Inl err \<Rightarrow> ([], Inl err)
           | Inr job_tid \<Rightarrow>
               (let ms = parseInt (lookup (picked_opts h opts0) ''msTimeout'') 10
                in if \<not> isNumber ms
                     then ([Log ''info'' ''Worker created''],
                           Inl (new_Error ''Provided `msTimeout` is not an integer''))
                   else if num_lt ms (Fin 0)
                     then ([Log ''info'' ''Worker created''],
                           Inl (new_Error ''Provided `msTimeout` is negative''))
                   else ([Log ''info'' ''Worker created''],
                         Inr \<lparr> attempt = JNum (Fin 0),
                               done' = lookup opts0 ''done'',
                               errorCat = (if exists (lookup opts0 ''errorCat'')
                                           then lookup opts0 ''errorCat'' else errorCat_module h),
                               job = lookup opts0 ''job'',
                               log = lookup opts0 ''log'',
                               msTimeout = JNum ms,
                               queue = lookup opts0 ''queue'',
                               retryDelay = js_or (process_env (WORKER_MIN_RETRY_DELAY h)) (JNum (Fin 1)),
                               runNow = (if exists (lookup opts0 ''runNow'')
                                         then lookup opts0 ''runNow'' else JBool True),
                               task = lookup opts0 ''task'',
                               tid = js_or job_tid (JStr (uuid h)) \<rparr>))))"
  by (simp add: construct_def Let_def assign_this_def picked_opts_attempt picked_opts_retryDelay
      picked_opts_runNow picked_opts_errorCat picked_opts_required
      required_fields_def
      split: option.splits sum.splits)


lemma construct_cong:
  assumes "\<forall>k \<in> set picked_fields. lookup opts k = lookup opts' k"
  shows "construct h opts = construct h opts'"
proof -
  from assms have "\<forall>k \<in> set required_fields. lookup opts k = lookup opts' k"
    by (simp add: picked_fields_def)
  then have "check_required opts required_fields = check_required opts' required_fields"
    by (rule check_required_cong)
  moreover from assms have "lookup opts ''done'' = lookup opts' ''done''"
    "lookup opts ''job'' = lookup opts' ''job''" "lookup opts ''log'' = lookup opts' ''log''"
    "lookup opts ''queue'' = lookup opts' ''queue''" "lookup opts ''task'' = lookup opts' ''task''"
    "lookup opts ''errorCat'' = lookup opts' ''errorCat''"
    "lookup opts ''msTimeout'' = lookup opts' ''msTimeout''"
    "lookup opts ''runNow'' = lookup opts' ''runNow''"
    by (simp_all add: picked_fields_def required_fields_def)
  ultimately show ?thesis by (simp only: construct_eq picked_opts_msTimeout)
qed

text \<open>
  Claim C9. The constructor keeps exactly the options \<^verbatim>\<open>done\<close>, \<^verbatim>\<open>job\<close>,
  \<^verbatim>\<open>log\<close>, \<^verbatim>\<open>queue\<close>, \<^verbatim>\<open>task\<close>, \<^verbatim>\<open>errorCat\<close>,
  \<^verbatim>\<open>msTimeout\<close> and \<^verbatim>\<open>runNow\<close>: two option objects that agree on these
  construct the same instance (and have the same lifetime), so setting any other option
  changes nothing. Whatever the options, a constructed instance has \<^verbatim>\<open>attempt\<close> 0,
  its \<^verbatim>\<open>retryDelay\<close> is \<^verbatim>\<open>process.env.WORKER_MIN_RETRY_DELAY || 1\<close> and its
  \<^verbatim>\<open>tid\<close> is \<^verbatim>\<open>job.tid || uuid()\<close>.
\<close>

theorem constructor_whitelist:
  "set picked_fields =
     {''done'', ''job'', ''log'', ''queue'', ''task'', ''errorCat'', ''msTimeout'', ''runNow''}
   \<and> ((\<forall>k \<in> set picked_fields. lookup opts k = lookup opts' k) \<longrightarrow>
        construct h opts = construct h opts' \<and> new_Worker fuel h opts = new_Worker fuel h opts')
   \<and> (k \<notin> set picked_fields \<longrightarrow> construct h (assign opts k v) = construct h opts)
   \<and> (construct h opts = (tr, Inr this) \<longrightarrow>
        attempt this = JNum (Fin 0)
        \<and> retryDelay this = js_or (process_env (WORKER_MIN_RETRY_DELAY h)) (JNum (Fin 1))
        \<and> (\<exists>job_tid. get_member (lookup opts ''job'') ''tid'' = Inr job_tid
                     \<and> tid this = js_or job_tid (JStr (uuid h))))"
proof (intro conjI impI)
  show "set picked_fields =
     {''done'', ''job'', ''log'', ''queue'', ''task'', ''errorCat'', ''msTimeout'', ''runNow''}"
    by (auto simp: picked_fields_def required_fields_def)
next
  assume a: "\<forall>k \<in> set picked_fields. lookup opts k = lookup opts' k"
  then show c: "construct h opts = construct h opts'" by (rule construct_cong)
  then show "new_Worker fuel h opts = new_Worker fuel h opts'" by (simp add: new_Worker_def)
next
  assume "k \<notin> set picked_fields"
  then have "\<forall>k' \<in> set picked_fields. lookup (assign opts k v) k' = lookup opts k'"
    by (auto simp: lookup_assign)
  then show "construct h (assign opts k v) = construct h opts" by (rule construct_cong)
next
  assume c: "construct h opts = (tr, Inr this)"
  then show "attempt this = JNum (Fin 0)"
    by (auto simp: construct_eq Let_def split: option.splits sum.splits if_splits)
  from c show "retryDelay this = js_or (process_env (WORKER_MIN_RETRY_DELAY h)) (JNum (Fin 1))"
    by (auto simp: construct_eq Let_def split: option.splits sum.splits if_splits)
  from c show "\<exists>job_tid. get_member (lookup opts ''job'') ''tid'' = Inr job_tid
                     \<and> tid this = js_or job_tid (JStr (uuid h))"
    by (auto simp: construct_eq Let_def split: option.splits sum.splits if_splits)
qed

theorem constructor_whitelist_witness:
  "construct example_host
     (example_opts @ [(''attempt'', JNum (Fin 5)), (''retryDelay'', JNum (Fin 100)),
                      (''tid'', JStr ''mine'')])
   = construct example_host example_opts
   \<and> construct example_host (assign example_opts ''attempt'' (JNum (Fin 5)))
     = construct example_host example_opts
   \<and> (\<exists>this. construct example_host example_opts = ([Log ''info'' ''Worker created''], Inr this)
        \<and> attempt this = JNum (Fin 0) \<and> retryDelay this = JNum (Fin 1)
        \<and> tid this = JStr ''t7'')"
proof -
  let ?o = "example_opts @ [(''attempt'', JNum (Fin 5)), (''retryDelay'', JNum (Fin 100)),
                      (''tid'', JStr ''mine'')]"
  let ?w = "\<lparr> attempt = JNum (Fin 0), done' = JObj FunctionObject [],
                  errorCat = JObj PlainObject [],
                  job = JObj PlainObject [(''tid'', JStr ''t7'')],
                  log = JObj PlainObject [], msTimeout = JNum (Fin 0),
                  queue = JStr ''a.b'', retryDelay = JNum (Fin 1),
                  runNow = JBool True, task = JObj FunctionObject [],
                  tid = JStr ''t7'' \<rparr>"
  have a: "\<forall>k \<in> set picked_fields. lookup ?o k = lookup example_opts k"
    by (simp add: picked_fields_def required_fields_def example_opts_def)
  have b: "''attempt'' \<notin> set picked_fields"
    by (simp add: picked_fields_def required_fields_def)
  have c: "construct example_host example_opts = ([Log ''info'' ''Worker created''], Inr ?w)"
    by code_simp
  have d: "get_member (lookup example_opts ''job'') ''tid'' = Inr (JStr ''t7'')"
    by (simp add: example_opts_def)
  have e: "js_or (process_env (WORKER_MIN_RETRY_DELAY example_host)) (JNum (Fin 1)) = JNum (Fin 1)"
    "js_or (JStr ''t7'') (JStr (uuid example_host)) = JStr ''t7''"
    by (simp_all add: example_host_def js_or_def)
  note T1 = constructor_whitelist[of ?o example_opts example_host 1 "''attempt''" "JNum (Fin 5)"
      "[Log ''info'' ''Worker created'']" ?w]
  note T2 = constructor_whitelist[of example_opts example_opts example_host 1 "''attempt''"
      "JNum (Fin 5)" "[Log ''info'' ''Worker created'']" ?w]
  from T1 a have 1: "construct example_host ?o = construct example_host example_opts" by blast
  from T2 b have 2: "construct example_host (assign example_opts ''attempt'' (JNum (Fin 5)))
     = construct example_host example_opts" by blast
  from T2 c have 3: "attempt ?w = JNum (Fin 0)
        \<and> retryDelay ?w = js_or (process_env (WORKER_MIN_RETRY_DELAY example_host)) (JNum (Fin 1))
        \<and> (\<exists>job_tid. get_member (lookup example_opts ''job'') ''tid'' = Inr job_tid
                     \<and> tid ?w = js_or job_tid (JStr (uuid example_host)))" by blast
  with d e have "attempt ?w = JNum (Fin 0) \<and> retryDelay ?w = JNum (Fin 1) \<and> tid ?w = JStr ''t7''"
    by auto
  with 1 2 c show ?thesis by blast
qed



section \<open>The run loop\<close>

text \<open>Counting the calls, reports and delays of a trace.\<close>

lemma task_calls_append [simp]: "task_calls (xs @ ys) = task_calls xs + task_calls ys"
  by (simp add: task_calls_def)
lemma done_calls_append [simp]: "done_calls (xs @ ys) = done_calls xs + done_calls ys"
  by (simp add: done_calls_def)
lemma reports_append [simp]: "reports (xs @ ys) = reports xs @ reports ys"
  by (induction xs rule: reports.induct) simp_all
lemma delays_append [simp]: "delays (xs @ ys) = delays xs @ delays ys"
  by (induction xs rule: delays.induct) simp_all

lemma task_calls_simps [simp]:
  "task_calls [] = 0" "task_calls (CallTask j # tr) = Suc (task_calls tr)"
  "task_calls (Log l m # tr) = task_calls tr" "task_calls (Increment n t # tr) = task_calls tr"
  "task_calls (TimerStart n t # tr) = task_calls tr" "task_calls (TimerStop # tr) = task_calls tr"
  "task_calls (CallDone # tr) = task_calls tr" "task_calls (Report e # tr) = task_calls tr"
  "task_calls (Delay d # tr) = task_calls tr"
  by (simp_all add: task_calls_def)

lemma done_calls_simps [simp]:
  "done_calls [] = 0" "done_calls (CallDone # tr) = Suc (done_calls tr)"
  "done_calls (Log l m # tr) = done_calls tr" "done_calls (Increment n t # tr) = done_calls tr"
  "done_calls (TimerStart n t # tr) = done_calls tr" "done_calls (TimerStop # tr) = done_calls tr"
  "done_calls (CallTask j # tr) = done_calls tr" "done_calls (Report e # tr) = done_calls tr"
  "done_calls (Delay d # tr) = done_calls tr"
  by (simp_all add: done_calls_def)

lemma incMonitor_proj [simp]:
  "task_calls (incMonitor h q n x) = 0" "done_calls (incMonitor h q n x) = 0"
  "reports (incMonitor h q n x) = []" "delays (incMonitor h q n x) = []"
  by (simp_all add: incMonitor_def)

lemma createTimer_proj [simp]:
  "task_calls (createTimer h q) = 0" "done_calls (createTimer h q) = 0"
  "reports (createTimer h q) = []" "delays (createTimer h q) = []"
  by (simp_all add: createTimer_def)

lemma timer_stop_proj [simp]:
  "task_calls (timer_stop h) = 0" "done_calls (timer_stop h) = 0"
  "reports (timer_stop h) = []" "delays (timer_stop h) = []"
  by (simp_all add: timer_stop_def)

text \<open>The three catch handlers on a rejected promise.\<close>

lemma catch_chain:
  "catch_WorkerStopError h q (catch_normalize this (catch_TimeoutError h q (tr, Rejected err))) =
     (if instanceof (normalize_err this err) WorkerStopErrorObject
      then call_done h (tr @ timeout_events h q err @ fatal_events h q (normalize_err this err))
      else (tr @ timeout_events h q err, Rejected (normalize_err this err)))"
  by (simp add: catch_WorkerStopError_def catch_normalize_def catch_TimeoutError_def
      timeout_events_def fatal_events_def)

lemma catch_chain_Fulfilled:
  "catch_WorkerStopError h q (catch_normalize this (catch_TimeoutError h q (tr, Fulfilled v))) =
     (tr, Fulfilled v)"
  by (simp add: catch_WorkerStopError_def catch_normalize_def catch_TimeoutError_def)

lemma catch_chain_Pending:
  "catch_WorkerStopError h q (catch_normalize this (catch_TimeoutError h q (tr, Pending))) =
     (tr, Pending)"
  by (simp add: catch_WorkerStopError_def catch_normalize_def catch_TimeoutError_def)

lemma normalize_cong:
  "queue a = queue b \<Longrightarrow> job a = job b \<Longrightarrow> normalize_err a err = normalize_err b err"
  by (simp add: normalize_err_def cong: sum.case_cong)
lemma normalize_err_attempt [simp]: "normalize_err (this\<lparr>attempt := a\<rparr>) err = normalize_err this err"
  by (rule normalize_cong) simp_all
lemma normalize_err_retryDelay [simp]: "normalize_err (this\<lparr>retryDelay := a\<rparr>) err = normalize_err this err"
  by (rule normalize_cong) simp_all
lemma attemptPromise_attempt [simp]: "attemptPromise h (this\<lparr>attempt := a\<rparr>) n = attemptPromise h this n"
  by (simp add: attemptPromise_def taskPromise_def)
lemma attemptPromise_retryDelay [simp]: "attemptPromise h (this\<lparr>retryDelay := a\<rparr>) n = attemptPromise h this n"
  by (simp add: attemptPromise_def taskPromise_def)

text \<open>What \<^verbatim>\<open>asCallback\<close> and \<^verbatim>\<open>fromCallback\<close> do to the task promise.\<close>

lemma errorAdapter_truthy: "truthy (errorAdapter e)"
  by (simp add: errorAdapter_def)

lemma fromCallback_simps:
  "fromCallback (Fulfilled v) = Fulfilled v"
  "fromCallback (Rejected e) = Rejected (handed_on e)"
  "fromCallback Pending = Pending"
  by (simp_all add: fromCallback_def nodeback_def handed_on_def errorAdapter_truthy)

lemma attemptPromise_eq:
  "attemptPromise h this n =
     (case task_behaviour h n of
        Returns v \<Rightarrow> Fulfilled v
      | Throws e \<Rightarrow> Rejected (handed_on e)
      | Unsettled \<Rightarrow>
          if truthy (msTimeout this) then Rejected (handed_on timeout_error) else Pending)"
  by (simp add: attemptPromise_def taskPromise_def fromCallback_simps split: task_result.splits)

lemma attemptPromise_Returns:
  "task_behaviour h n = Returns v \<Longrightarrow> attemptPromise h this n = Fulfilled v"
  by (simp add: attemptPromise_eq)

lemma attemptPromise_Throws:
  "task_behaviour h n = Throws e \<Longrightarrow> attemptPromise h this n = Rejected (handed_on e)"
  by (simp add: attemptPromise_eq)

lemma attemptPromise_Unsettled:
  "task_behaviour h n = Unsettled \<Longrightarrow>
   attemptPromise h this n =
     (if truthy (msTimeout this) then Rejected (handed_on timeout_error) else Pending)"
  by (simp add: attemptPromise_eq)

lemma attemptPromise_Fulfilled_iff:
  "attemptPromise h this n = Fulfilled v \<longleftrightarrow> task_behaviour h n = Returns v"
  by (cases "task_behaviour h n")
     (simp_all add: attemptPromise_Returns attemptPromise_Throws attemptPromise_Unsettled)

lemma handed_on_typed:
  "c \<noteq> ErrorObject \<Longrightarrow> handed_on (JObj c ps) = JObj c (assign ps ''isOperational'' (JBool True))"
  by (simp add: handed_on_def errorAdapter_def maybeWrapAsError_def wrapAsOperationalError_def
      isUntypedError_def)

lemma lookup_foldl_assign_other:
  "\<forall>(k', v) \<in> set qs. k' \<noteq> k \<Longrightarrow>
   lookup (foldl (\<lambda>ret (k, v). assign ret k v) base qs) k = lookup base k"
  by (induction qs arbitrary: base) (auto simp: lookup_assign)

lemma wrapAsOperationalError_untyped:
  "\<exists>wps. wrapAsOperationalError (JObj ErrorObject ps) = JObj OperationalErrorObject wps
     \<and> lookup wps ''cause'' = JObj ErrorObject ps"
  by (simp add: wrapAsOperationalError_def isUntypedError_def lookup_foldl_assign_other)

lemma handed_on_untyped:
  "\<exists>wps. handed_on (JObj ErrorObject ps) = JObj OperationalErrorObject wps
     \<and> lookup wps ''cause'' = JObj ErrorObject ps"
  using wrapAsOperationalError_untyped[of ps]
  by (simp add: handed_on_def errorAdapter_def maybeWrapAsError_def)

lemma handed_on_primitive:
  assumes "\<And>c ps. e \<noteq> JObj c ps"
  shows "\<exists>wps eps. handed_on e = JObj OperationalErrorObject wps
     \<and> lookup wps ''cause'' = JObj ErrorObject eps"
proof (cases "truthy e")
  case True
  with assms have "maybeWrapAsError (errorAdapter e) = new_Error (to_string e)"
    by (cases e) (auto simp: errorAdapter_def maybeWrapAsError_def)
  then show ?thesis
    using wrapAsOperationalError_untyped[of "[(''message'', JStr (to_string e))]"]
    by (auto simp: handed_on_def new_Error_def)
next
  case False
  then have "maybeWrapAsError (errorAdapter e)
      = JObj ErrorObject [(''message'', JStr (to_string e)), (''cause'', e)]"
    by (simp add: errorAdapter_def maybeWrapAsError_def)
  then show ?thesis
    using wrapAsOperationalError_untyped[of "[(''message'', JStr (to_string e)), (''cause'', e)]"]
    by (auto simp: handed_on_def)
qed

lemma attempt_task_Rejected:
  assumes "attemptPromise h this (task_calls tr) = Rejected err"
  shows "attempt_task h q this tr =
     (if instanceof (normalize_err this err) WorkerStopErrorObject
      then (this\<lparr>attempt := increment (attempt this)\<rparr>,
            fst (call_done h (tr @ entry_events h q this @ timeout_events h q err
                                 @ fatal_events h q (normalize_err this err))),
            snd (call_done h (tr @ entry_events h q this @ timeout_events h q err
                                 @ fatal_events h q (normalize_err this err))))
      else (this\<lparr>attempt := increment (attempt this)\<rparr>,
            tr @ entry_events h q this @ timeout_events h q err,
            Rejected (normalize_err this err)))"
  using assms
  by (simp add: attempt_task_def Let_def then_success_def catch_chain increment_def entry_events_def)

lemma attempt_task_Pending:
  assumes "attemptPromise h this (task_calls tr) = Pending"
  shows "attempt_task h q this tr =
     (this\<lparr>attempt := increment (attempt this)\<rparr>, tr @ entry_events h q this, Pending)"
  using assms
  by (simp add: attempt_task_def Let_def then_success_def catch_chain_Pending increment_def entry_events_def)

lemma attempt_task_Fulfilled_done:
  assumes "attemptPromise h this (task_calls tr) = Fulfilled v"
    and "done_behaviour h (done_calls tr) = DoneReturns r"
  shows "attempt_task h q this tr =
     (this\<lparr>attempt := increment (attempt this)\<rparr>,
      tr @ entry_events h q this @ success_events h q @ [CallDone], Fulfilled r)"
  using assms
  by (simp add: attempt_task_def Let_def then_success_def call_done_def catch_chain_Fulfilled
      increment_def entry_events_def success_events_def)

lemma entry_events_proj [simp]:
  "task_calls (entry_events h q this) = 1" "done_calls (entry_events h q this) = 0"
  "reports (entry_events h q this) = []" "delays (entry_events h q this) = []"
  by (simp_all add: entry_events_def)

lemma success_events_proj [simp]:
  "task_calls (success_events h q) = 0" "done_calls (success_events h q) = 0"
  "reports (success_events h q) = []" "delays (success_events h q) = []"
  by (simp_all add: success_events_def)

lemma timeout_events_proj [simp]:
  "task_calls (timeout_events h q e) = 0" "done_calls (timeout_events h q e) = 0"
  "reports (timeout_events h q e) = []" "delays (timeout_events h q e) = []"
  by (simp_all add: timeout_events_def)

lemma fatal_events_proj [simp]:
  "task_calls (fatal_events h q e) = 0" "done_calls (fatal_events h q e) = 0"
  "reports (fatal_events h q e) = [e]" "delays (fatal_events h q e) = []"
  by (simp_all add: fatal_events_def)

lemma retry_events_proj [simp]:
  "task_calls (retry_events h q this e) = 1" "done_calls (retry_events h q this e) = 0"
  "reports (retry_events h q this e) = [normalize_err this e]"
  "delays (retry_events h q this e) = [to_num (retryDelay this)]"
  by (simp_all add: retry_events_def)

lemma run_Suc_retry:
  assumes "queue this = JStr q" and "retryable h this (task_calls tr)"
  shows "run (Suc n) h this tr =
     unwind1 h (run n h (retry_state h this)
                  (tr @ retry_events h q this (rejection h this (task_calls tr))))"
proof -
  from assms(2) obtain err where e: "attemptPromise h this (task_calls tr) = Rejected err"
    and n: "\<not> instanceof (normalize_err this err) WorkerStopErrorObject"
    by (auto simp: retryable_def split: settle.splits)
  from e have r: "rejection h this (task_calls tr) = err" by (simp add: rejection_def)
  show ?thesis
    using assms(1) n
    by (simp add: attempt_task_Rejected[OF e] r Let_def retry_state_def retry_events_def unwind1_def
        split: option.splits)
qed

lemma run_Suc_success:
  assumes "queue this = JStr q" and "attemptPromise h this (task_calls tr) = Fulfilled v"
    and "done_behaviour h (done_calls tr) = DoneReturns r"
  shows "run (Suc n) h this tr =
     Some (this\<lparr>attempt := increment (attempt this)\<rparr>,
           tr @ entry_events h q this @ success_events h q @ [CallDone] @ timer_stop h,
           Promise (Fulfilled r))"
  using assms(1) by (simp add: attempt_task_Fulfilled_done[OF assms(2,3)])

lemma run_Suc_fatal:
  assumes "queue this = JStr q" and "attemptPromise h this (task_calls tr) = Rejected err"
    and "instanceof (normalize_err this err) WorkerStopErrorObject"
    and "done_behaviour h (done_calls tr) = DoneReturns r"
  shows "run (Suc n) h this tr =
     Some (this\<lparr>attempt := increment (attempt this)\<rparr>,
           tr @ entry_events h q this @ timeout_events h q err
              @ fatal_events h q (normalize_err this err) @ [CallDone] @ timer_stop h,
           Promise (Fulfilled r))"
  using assms(1,3,4) by (simp add: attempt_task_Rejected[OF assms(2)] call_done_def)

lemma run_Suc_pending:
  assumes "queue this = JStr q" and "attemptPromise h this (task_calls tr) = Pending"
  shows "run (Suc n) h this tr =
     Some (this\<lparr>attempt := increment (attempt this)\<rparr>, tr @ entry_events h q this, Promise Pending)"
  using assms(1) by (simp add: attempt_task_Pending[OF assms(2)])

lemma retry_state_fields [simp]:
  "queue (retry_state h this) = queue this" "job (retry_state h this) = job this"
  "msTimeout (retry_state h this) = msTimeout this" "tid (retry_state h this) = tid this"
  "attempt (retry_state h this) = increment (attempt this)"
  "retryDelay (retry_state h this) = next_retryDelay h (retryDelay this)"
  by (simp_all add: retry_state_def)

lemma retry_state_funpow_fields:
  "queue ((retry_state h ^^ K) this) = queue this"
  "job ((retry_state h ^^ K) this) = job this"
  "msTimeout ((retry_state h ^^ K) this) = msTimeout this"
  "tid ((retry_state h ^^ K) this) = tid this"
  "attempt ((retry_state h ^^ K) this) = (increment ^^ K) (attempt this)"
  "retryDelay ((retry_state h ^^ K) this) = (next_retryDelay h ^^ K) (retryDelay this)"
  by (induction K) simp_all

lemma retry_state_same [simp]:
  "normalize_err (retry_state h this) err = normalize_err this err"
  "attemptPromise h (retry_state h this) n = attemptPromise h this n"
  "retryable h (retry_state h this) n = retryable h this n"
  "rejection h (retry_state h this) n = rejection h this n"
  by (simp_all add: retry_state_def retryable_def rejection_def cong: settle.case_cong)

lemma retry_state_funpow_same:
  "normalize_err ((retry_state h ^^ K) this) err = normalize_err this err"
  "attemptPromise h ((retry_state h ^^ K) this) n = attemptPromise h this n"
  by (induction K) simp_all

lemma run_retries:
  assumes "queue this = JStr q"
    and "\<forall>i<K. retryable h this (task_calls tr + i)"
  shows "\<exists>new. task_calls new = K \<and> done_calls new = 0
       \<and> reports new = map (\<lambda>i. normalize_err this (rejection h this (task_calls tr + i))) [0..<K]
       \<and> delays new = map (\<lambda>i. retry_delay_after h (retryDelay this) i) [0..<K]
       \<and> (\<forall>fuel. run (K + fuel) h this tr =
                    (unwind1 h ^^ K) (run fuel h ((retry_state h ^^ K) this) (tr @ new)))"
  using assms
proof (induction K arbitrary: this tr)
  case 0
  show ?case by (rule exI[of _ "[]"]) simp
next
  case (Suc K)
  let ?this2 = "retry_state h this"
  let ?ev = "retry_events h q this (rejection h this (task_calls tr))"
  from Suc.prems(2) have first: "retryable h this (task_calls tr)" by force
  have q2: "queue ?this2 = JStr q" using Suc.prems(1) by simp
  have rest: "\<forall>i<K. retryable h ?this2 (task_calls (tr @ ?ev) + i)"
    using Suc.prems(2) by auto
  from Suc.IH[OF q2 rest] obtain new where
    n: "task_calls new = K" "done_calls new = 0"
       "reports new = map (\<lambda>i. normalize_err ?this2 (rejection h ?this2 (task_calls (tr @ ?ev) + i))) [0..<K]"
       "delays new = map (\<lambda>i. retry_delay_after h (retryDelay ?this2) i) [0..<K]"
       "\<And>fuel. run (K + fuel) h ?this2 (tr @ ?ev) =
                    (unwind1 h ^^ K) (run fuel h ((retry_state h ^^ K) ?this2) ((tr @ ?ev) @ new))"
    by blast
  have d: "\<And>i. retry_delay_after h (retryDelay ?this2) i = retry_delay_after h (retryDelay this) (Suc i)"
    by (simp add: retry_delay_after_def funpow_swap1)
  have d0: "to_num (retryDelay this) = retry_delay_after h (retryDelay this) 0"
    by (simp add: retry_delay_after_def)
  show ?case
  proof (intro exI[of _ "?ev @ new"] conjI allI)
    show "task_calls (?ev @ new) = Suc K" using n(1) by simp
    show "done_calls (?ev @ new) = 0" using n(2) by simp
    show "reports (?ev @ new) =
        map (\<lambda>i. normalize_err this (rejection h this (task_calls tr + i))) [0..<Suc K]"
      using n(3) by (simp add: map_upt_Suc del: upt_Suc)
    show "delays (?ev @ new) = map (\<lambda>i. retry_delay_after h (retryDelay this) i) [0..<Suc K]"
      using n(4) d d0 by (simp add: map_upt_Suc del: upt_Suc)
    fix fuel
    have "run (Suc K + fuel) h this tr = unwind1 h (run (K + fuel) h ?this2 (tr @ ?ev))"
      using run_Suc_retry[OF Suc.prems(1) first, of "K + fuel"] by simp
    also have "\<dots> = unwind1 h ((unwind1 h ^^ K)
                        (run fuel h ((retry_state h ^^ K) ?this2) ((tr @ ?ev) @ new)))"
      by (simp only: n(5))
    finally show "run (Suc K + fuel) h this tr =
        (unwind1 h ^^ Suc K) (run fuel h ((retry_state h ^^ Suc K) this) (tr @ ?ev @ new))"
      by (simp add: funpow_swap1)
  qed
qed

lemma unwind1_Fulfilled:
  "unwind1 h (Some (w, t, Promise (Fulfilled v))) = Some (w, t @ timer_stop h, Promise (Fulfilled v))"
  by (simp add: unwind1_def)

lemma unwind_Fulfilled:
  "(unwind1 h ^^ K) (Some (w, t, Promise (Fulfilled v))) =
     Some (w, t @ concat (replicate K (timer_stop h)), Promise (Fulfilled v))"
proof (induction K arbitrary: t)
  case 0
  show ?case by simp
next
  case (Suc K)
  have "(unwind1 h ^^ Suc K) (Some (w, t, Promise (Fulfilled v))) =
        (unwind1 h ^^ K) (Some (w, t @ timer_stop h, Promise (Fulfilled v)))"
    by (simp only: funpow_Suc_right o_apply unwind1_Fulfilled)
  then show ?case by (simp add: Suc.IH)
qed

lemma stops_proj [simp]:
  "task_calls (concat (replicate K (timer_stop h))) = 0"
  "done_calls (concat (replicate K (timer_stop h))) = 0"
  "reports (concat (replicate K (timer_stop h))) = []"
  "delays (concat (replicate K (timer_stop h))) = []"
  by (induction K) simp_all

lemma increment_funpow: "(increment ^^ K) (JNum (Fin a)) = JNum (Fin (a + int K))"
  by (induction K) (simp_all add: increment_def)

section \<open>Error normalisation\<close>

text \<open>
  The second error handler of \<^verbatim>\<open>run\<close> normalises the error. On an object it
  replaces the error by its \<^verbatim>\<open>cause\<close> when that is truthy, replaces a
  \<^verbatim>\<open>data\<close> that is not an object by a fresh one, and fills
  \<^verbatim>\<open>data.queue\<close> and \<^verbatim>\<open>data.job\<close> when they are falsy.
\<close>

lemma unwrap_cause_obj:
  "unwrap_cause (JObj c ps) =
     Inr (if truthy (lookup ps ''cause'') then lookup ps ''cause'' else JObj c ps)"
  by (simp add: unwrap_cause_def)

lemma ensure_data_obj:
  "ensure_data (JObj c ps) =
     Inr (JObj c (if isObject (lookup ps ''data'') then ps
                  else assign ps ''data'' (JObj PlainObject [])))"
  by (simp add: ensure_data_def)

lemma fill_data_obj:
  "lookup ps ''data'' = JObj dc dps \<Longrightarrow>
   fill_data (JObj c ps) k v =
     Inr (JObj c (if truthy (lookup dps k) then ps
                  else assign ps ''data'' (JObj dc (assign dps k v))))"
  by (simp add: fill_data_def)

lemma normalize_err_obj:
  assumes "unwrap_cause err0 = Inr (JObj c ps)"
  shows "\<exists>ps'. normalize_err this err0 = JObj c ps'
       \<and> (\<forall>k. k \<noteq> ''data'' \<longrightarrow> lookup ps' k = lookup ps k)
       \<and> (\<forall>dc dps. lookup ps ''data'' = JObj dc dps \<and> dc \<noteq> FunctionObject \<longrightarrow>
            (\<exists>dps'. lookup ps' ''data'' = JObj dc dps'
               \<and> lookup dps' ''queue'' =
                   (if truthy (lookup dps ''queue'') then lookup dps ''queue'' else queue this)
               \<and> lookup dps' ''job'' =
                   (if truthy (lookup dps ''job'') then lookup dps ''job'' else job this)
               \<and> (\<forall>k. k \<noteq> ''queue'' \<and> k \<noteq> ''job'' \<longrightarrow> lookup dps' k = lookup dps k)))
       \<and> (\<not> isObject (lookup ps ''data'') \<longrightarrow>
            lookup ps' ''data'' = JObj PlainObject [(''queue'', queue this), (''job'', job this)])"
proof (cases "isObject (lookup ps ''data'')")
  case True
  then obtain dc dps where d: "lookup ps ''data'' = JObj dc dps" "dc \<noteq> FunctionObject"
    by (cases "lookup ps ''data''") auto
  let ?ps1 = "if truthy (lookup dps ''queue'') then ps
              else assign ps ''data'' (JObj dc (assign dps ''queue'' (queue this)))"
  let ?d1 = "if truthy (lookup dps ''queue'') then dps else assign dps ''queue'' (queue this)"
  have l1: "lookup ?ps1 ''data'' = JObj dc ?d1" using d by (simp add: lookup_assign)
  let ?ps2 = "if truthy (lookup ?d1 ''job'') then ?ps1
              else assign ?ps1 ''data'' (JObj dc (assign ?d1 ''job'' (job this)))"
  let ?d2 = "if truthy (lookup ?d1 ''job'') then ?d1 else assign ?d1 ''job'' (job this)"
  have n: "normalize_err this err0 = JObj c ?ps2"
    using assms True d
    by (simp add: normalize_err_def ensure_data_obj fill_data_obj[OF d(1)] fill_data_obj[OF l1])
  have l2: "lookup ?ps2 ''data'' = JObj dc ?d2" using l1 by (simp add: lookup_assign)
  have o: "\<forall>k. k \<noteq> ''data'' \<longrightarrow> lookup ?ps2 k = lookup ps k" by (simp add: lookup_assign)
  have q: "lookup ?d2 ''queue'' =
      (if truthy (lookup dps ''queue'') then lookup dps ''queue'' else queue this)"
    by (simp add: lookup_assign)
  have j: "lookup ?d2 ''job'' = (if truthy (lookup dps ''job'') then lookup dps ''job'' else job this)"
    by (simp add: lookup_assign)
  have r: "\<forall>k. k \<noteq> ''queue'' \<and> k \<noteq> ''job'' \<longrightarrow> lookup ?d2 k = lookup dps k"
    by (simp add: lookup_assign)
  show ?thesis
  proof (intro exI[of _ ?ps2] conjI)
    show "normalize_err this err0 = JObj c ?ps2" by (rule n)
    show "\<forall>k. k \<noteq> ''data'' \<longrightarrow> lookup ?ps2 k = lookup ps k" by (rule o)
    show "\<forall>dc' dps0. lookup ps ''data'' = JObj dc' dps0 \<and> dc' \<noteq> FunctionObject \<longrightarrow>
            (\<exists>dps'. lookup ?ps2 ''data'' = JObj dc' dps'
               \<and> lookup dps' ''queue'' =
                   (if truthy (lookup dps0 ''queue'') then lookup dps0 ''queue'' else queue this)
               \<and> lookup dps' ''job'' =
                   (if truthy (lookup dps0 ''job'') then lookup dps0 ''job'' else job this)
               \<and> (\<forall>k. k \<noteq> ''queue'' \<and> k \<noteq> ''job'' \<longrightarrow> lookup dps' k = lookup dps0 k))"
    proof (intro allI impI)
      fix dc' dps0 assume "lookup ps ''data'' = JObj dc' dps0 \<and> dc' \<noteq> FunctionObject"
      with d have e: "dc' = dc" "dps0 = dps" by simp_all
      show "\<exists>dps'. lookup ?ps2 ''data'' = JObj dc' dps'
               \<and> lookup dps' ''queue'' =
                   (if truthy (lookup dps0 ''queue'') then lookup dps0 ''queue'' else queue this)
               \<and> lookup dps' ''job'' =
                   (if truthy (lookup dps0 ''job'') then lookup dps0 ''job'' else job this)
               \<and> (\<forall>k. k \<noteq> ''queue'' \<and> k \<noteq> ''job'' \<longrightarrow> lookup dps' k = lookup dps0 k)"
        unfolding e using l2 q j r by blast
    qed
    show "\<not> isObject (lookup ps ''data'') \<longrightarrow>
            lookup ?ps2 ''data'' = JObj PlainObject [(''queue'', queue this), (''job'', job this)]"
      using True by simp
  qed
next
  case False
  let ?ps0 = "assign ps ''data'' (JObj PlainObject [])"
  have l0: "lookup ?ps0 ''data'' = JObj PlainObject []" by (simp add: lookup_assign)
  let ?ps1 = "assign ?ps0 ''data'' (JObj PlainObject (assign [] ''queue'' (queue this)))"
  have l1: "lookup ?ps1 ''data'' = JObj PlainObject [(''queue'', queue this)]"
    by (simp add: lookup_assign)
  let ?ps2 = "assign ?ps1 ''data''
                (JObj PlainObject (assign [(''queue'', queue this)] ''job'' (job this)))"
  have f1: "fill_data (JObj c ?ps0) ''queue'' (queue this) = Inr (JObj c ?ps1)"
    using fill_data_obj[OF l0, of c "''queue''" "queue this"] by simp
  have f2: "fill_data (JObj c ?ps1) ''job'' (job this) = Inr (JObj c ?ps2)"
    using fill_data_obj[OF l1, of c "''job''" "job this"] by simp
  have n: "normalize_err this err0 = JObj c ?ps2"
    using assms False by (simp only: normalize_err_def ensure_data_obj f1 f2 if_False sum.case)
  show ?thesis
  proof (intro exI[of _ ?ps2] conjI)
    show "normalize_err this err0 = JObj c ?ps2" by (rule n)
    show "\<forall>k. k \<noteq> ''data'' \<longrightarrow> lookup ?ps2 k = lookup ps k" by (simp add: lookup_assign)
    show "\<forall>dc dps. lookup ps ''data'' = JObj dc dps \<and> dc \<noteq> FunctionObject \<longrightarrow>
            (\<exists>dps'. lookup ?ps2 ''data'' = JObj dc dps'
               \<and> lookup dps' ''queue'' =
                   (if truthy (lookup dps ''queue'') then lookup dps ''queue'' else queue this)
               \<and> lookup dps' ''job'' =
                   (if truthy (lookup dps ''job'') then lookup dps ''job'' else job this)
               \<and> (\<forall>k. k \<noteq> ''queue'' \<and> k \<noteq> ''job'' \<longrightarrow> lookup dps' k = lookup dps k))"
      using False by auto
    show "\<not> isObject (lookup ps ''data'') \<longrightarrow>
            lookup ?ps2 ''data'' = JObj PlainObject [(''queue'', queue this), (''job'', job this)]"
      by (simp add: lookup_assign)
  qed
qed

lemma normalize_err_not_obj:
  assumes "unwrap_cause err0 = Inr u" and "\<forall>c ps. u \<noteq> JObj c ps"
  shows "normalize_err this err0 = type_error"
proof -
  from assms(2) have "ensure_data u = Inl type_error"
    by (cases u) (simp_all add: ensure_data_def)
  with assms(1) show ?thesis by (simp add: normalize_err_def)
qed

lemma normalize_err_thrown:
  assumes "unwrap_cause err0 = Inl t"
  shows "normalize_err this err0 = type_error"
proof -
  from assms have "t = type_error"
    by (cases err0) (simp_all add: unwrap_cause_def)
  with assms show ?thesis by (simp add: normalize_err_def)
qed

text \<open>
  The \<^verbatim>\<open>WorkerStopError\<close> handler sees the normalised error, so it fires exactly
  when the error left after unwrapping \<^verbatim>\<open>cause\<close> is a \<^verbatim>\<open>WorkerStopError\<close>.
\<close>

lemma fatal_iff:
  "instanceof (normalize_err this err) WorkerStopErrorObject \<longleftrightarrow>
   (\<exists>u. unwrap_cause err = Inr u \<and> instanceof u WorkerStopErrorObject)"
proof (cases "unwrap_cause err")
  case (Inl t)
  from normalize_err_thrown[OF Inl] Inl show ?thesis by (simp add: type_error_def)
next
  case (Inr u)
  show ?thesis
  proof (cases "\<exists>c ps. u = JObj c ps")
    case True
    then obtain c ps where u: "u = JObj c ps" by blast
    from normalize_err_obj[OF Inr[unfolded u], of this] obtain ps' where
      "normalize_err this err = JObj c ps'" by blast
    with Inr u show ?thesis by simp
  next
    case False
    then have nu: "\<forall>c ps. u \<noteq> JObj c ps" by blast
    from nu have "\<not> instanceof u WorkerStopErrorObject" by (cases u) simp_all
    with normalize_err_not_obj[OF Inr nu] Inr show ?thesis by (simp add: type_error_def)
  qed
qed

text \<open>
  The same in terms of the error the task raised. A direct instance of \<^verbatim>\<open>Error\<close>
  and a primitive reach the handlers inside an \<^verbatim>\<open>OperationalError\<close>, so what is
  left after the unwrapping is the \<^verbatim>\<open>Error\<close> itself, whatever its own
  \<^verbatim>\<open>cause\<close>; any other object reaches them as it is, and its truthy
  \<^verbatim>\<open>cause\<close> takes its place.
\<close>

lemma unwrap_handed_on_typed:
  "c \<noteq> ErrorObject \<Longrightarrow>
   unwrap_cause (handed_on (JObj c ps)) =
     Inr (if truthy (lookup ps ''cause'') then lookup ps ''cause''
          else JObj c (assign ps ''isOperational'' (JBool True)))"
  by (simp add: handed_on_typed unwrap_cause_obj lookup_assign)

lemma unwrap_handed_on_untyped:
  "unwrap_cause (handed_on (JObj ErrorObject ps)) = Inr (JObj ErrorObject ps)"
  using handed_on_untyped[of ps] by (auto simp: unwrap_cause_obj)

lemma unwrap_handed_on_primitive:
  assumes "\<And>c ps. e \<noteq> JObj c ps"
  shows "\<exists>eps. unwrap_cause (handed_on e) = Inr (JObj ErrorObject eps)"
  using handed_on_primitive[OF assms] by (auto simp: unwrap_cause_obj)

lemma fatal_handed_on:
  "instanceof (normalize_err this (handed_on e)) WorkerStopErrorObject \<longleftrightarrow>
   (\<exists>c ps. e = JObj c ps \<and> c \<noteq> ErrorObject
      \<and> instanceof (if truthy (lookup ps ''cause'') then lookup ps ''cause'' else e)
           WorkerStopErrorObject)"
proof (cases e)
  case (JObj c ps)
  show ?thesis
  proof (cases "c = ErrorObject")
    case True
    with JObj show ?thesis by (simp add: fatal_iff unwrap_handed_on_untyped)
  next
    case False
    with JObj show ?thesis by (simp add: fatal_iff unwrap_handed_on_typed)
  qed
qed (use unwrap_handed_on_primitive[of e] in \<open>auto simp: fatal_iff\<close>)





section \<open>Attempts, reports and the completion callback\<close>

lemma run_then_success:
  assumes "queue this = JStr q"
    and "\<forall>i<K. retryable h this (task_calls tr + i)"
    and "task_behaviour h (task_calls tr + K) = Returns v"
    and "done_behaviour h (done_calls tr) = DoneReturns r"
  shows "\<exists>tr'. run (Suc K + fuel) h this tr =
           Some (((retry_state h ^^ K) this)\<lparr>attempt := increment ((increment ^^ K) (attempt this))\<rparr>,
                 tr', Promise (Fulfilled r))
       \<and> task_calls tr' = task_calls tr + K + 1
       \<and> done_calls tr' = done_calls tr + 1
       \<and> reports tr' = reports tr @ map (\<lambda>i. normalize_err this (rejection h this (task_calls tr + i))) [0..<K]
       \<and> delays tr' = delays tr @ map (\<lambda>i. retry_delay_after h (retryDelay this) i) [0..<K]"
proof -
  let ?thisK = "(retry_state h ^^ K) this"
  from run_retries[OF assms(1,2)] obtain new where
    n: "task_calls new = K" "done_calls new = 0"
       "reports new = map (\<lambda>i. normalize_err this (rejection h this (task_calls tr + i))) [0..<K]"
       "delays new = map (\<lambda>i. retry_delay_after h (retryDelay this) i) [0..<K]"
       "\<And>fuel. run (K + fuel) h this tr = (unwind1 h ^^ K) (run fuel h ?thisK (tr @ new))"
    by blast
  have qK: "queue ?thisK = JStr q" using assms(1) by (simp add: retry_state_funpow_fields)
  have tp: "attemptPromise h ?thisK (task_calls (tr @ new)) = Fulfilled v"
    using assms(3) n(1) by (simp add: retry_state_funpow_same attemptPromise_eq)
  have dn: "done_behaviour h (done_calls (tr @ new)) = DoneReturns r"
    using assms(4) n(2) by simp
  have "run (Suc K + fuel) h this tr = (unwind1 h ^^ K) (run (Suc fuel) h ?thisK (tr @ new))"
    using n(5)[of "Suc fuel"] by simp
  also have "\<dots> = Some (?thisK\<lparr>attempt := increment (attempt ?thisK)\<rparr>,
        (tr @ new) @ entry_events h q ?thisK @ success_events h q @ [CallDone] @ timer_stop h
          @ concat (replicate K (timer_stop h)),
        Promise (Fulfilled r))"
    by (simp only: run_Suc_success[OF qK tp dn] unwind_Fulfilled append_assoc)
  finally show ?thesis
    using n(1-4) by (simp add: retry_state_funpow_fields)
qed

lemma run_then_fatal:
  assumes "queue this = JStr q"
    and "\<forall>i<K. retryable h this (task_calls tr + i)"
    and "attemptPromise h this (task_calls tr + K) = Rejected err"
    and "instanceof (normalize_err this err) WorkerStopErrorObject"
    and "done_behaviour h (done_calls tr) = DoneReturns r"
  shows "\<exists>tr'. run (Suc K + fuel) h this tr =
           Some (((retry_state h ^^ K) this)\<lparr>attempt := increment ((increment ^^ K) (attempt this))\<rparr>,
                 tr', Promise (Fulfilled r))
       \<and> task_calls tr' = task_calls tr + K + 1
       \<and> done_calls tr' = done_calls tr + 1
       \<and> reports tr' = reports tr @ map (\<lambda>i. normalize_err this (rejection h this (task_calls tr + i))) [0..<K]
                          @ [normalize_err this err]
       \<and> delays tr' = delays tr @ map (\<lambda>i. retry_delay_after h (retryDelay this) i) [0..<K]"
proof -
  let ?thisK = "(retry_state h ^^ K) this"
  from run_retries[OF assms(1,2)] obtain new where
    n: "task_calls new = K" "done_calls new = 0"
       "reports new = map (\<lambda>i. normalize_err this (rejection h this (task_calls tr + i))) [0..<K]"
       "delays new = map (\<lambda>i. retry_delay_after h (retryDelay this) i) [0..<K]"
       "\<And>fuel. run (K + fuel) h this tr = (unwind1 h ^^ K) (run fuel h ?thisK (tr @ new))"
    by blast
  have qK: "queue ?thisK = JStr q" using assms(1) by (simp add: retry_state_funpow_fields)
  have tp: "attemptPromise h ?thisK (task_calls (tr @ new)) = Rejected err"
    using assms(3) n(1) by (simp add: retry_state_funpow_same)
  have ft: "instanceof (normalize_err ?thisK err) WorkerStopErrorObject"
    using assms(4) by (simp add: retry_state_funpow_same)
  have dn: "done_behaviour h (done_calls (tr @ new)) = DoneReturns r"
    using assms(5) n(2) by simp
  have "run (Suc K + fuel) h this tr = (unwind1 h ^^ K) (run (Suc fuel) h ?thisK (tr @ new))"
    using n(5)[of "Suc fuel"] by simp
  also have "\<dots> = Some (?thisK\<lparr>attempt := increment (attempt ?thisK)\<rparr>,
        (tr @ new) @ entry_events h q ?thisK @ timeout_events h q err
          @ fatal_events h q (normalize_err ?thisK err) @ [CallDone] @ timer_stop h
          @ concat (replicate K (timer_stop h)),
        Promise (Fulfilled r))"
    by (simp only: run_Suc_fatal[OF qK tp ft dn] unwind_Fulfilled append_assoc)
  finally show ?thesis
    using n(1-4) by (simp add: retry_state_funpow_fields retry_state_funpow_same)
qed

text \<open>
  Claim C6, as the code has it. Take an instance whose attempt counter is 0 and a
  completion callback that returns. If the task returns at its first call,
  \<^verbatim>\<open>run\<close> settles with the counter at 1, one call of the task, one call of
  \<^verbatim>\<open>done\<close>, no delay and no report. If the first \<open>K\<close> calls of the task end in
  the retry handler and the next one returns, \<^verbatim>\<open>run\<close> settles (given fuel for
  \<open>K + 1\<close> attempts) with the counter at \<open>K + 1\<close>, \<open>K + 1\<close> calls of the task,
  one call of \<^verbatim>\<open>done\<close>, \<open>K\<close> reports and \<open>K\<close> delays. If the first call
  throws an error that is handled as \<^verbatim>\<open>WorkerStopError\<close>, \<^verbatim>\<open>run\<close>
  settles with the counter at 1, one report (the normalised error), one call of
  \<^verbatim>\<open>done\<close>, no delay and no further call of the task. A
  \<^verbatim>\<open>WorkerStopError\<close> that carries no truthy \<^verbatim>\<open>cause\<close> is handled so, and a
  call that throws a direct instance of \<^verbatim>\<open>Error\<close> ends in the retry handler.
\<close>

theorem attempts_reports_and_done:
  assumes "queue this = JStr q" and "attempt this = JNum (Fin 0)"
    and "done_behaviour h (done_calls tr) = DoneReturns r"
  shows "(task_behaviour h (task_calls tr) = Returns v \<longrightarrow>
          (\<exists>this' tr'. run (Suc fuel) h this tr = Some (this', tr', Promise (Fulfilled r))
             \<and> attempt this' = JNum (Fin 1)
             \<and> task_calls tr' = task_calls tr + 1
             \<and> done_calls tr' = done_calls tr + 1
             \<and> delays tr' = delays tr \<and> reports tr' = reports tr))
       \<and> ((\<forall>i<K. retryable h this (task_calls tr + i))
            \<and> task_behaviour h (task_calls tr + K) = Returns v \<longrightarrow>
          (\<exists>this' tr'. run (Suc K + fuel) h this tr = Some (this', tr', Promise (Fulfilled r))
             \<and> attempt this' = JNum (Fin (int K + 1))
             \<and> task_calls tr' = task_calls tr + K + 1
             \<and> done_calls tr' = done_calls tr + 1
             \<and> length (reports tr') = length (reports tr) + K
             \<and> length (delays tr') = length (delays tr) + K))
       \<and> (task_behaviour h (task_calls tr) = Throws err
            \<and> instanceof (normalize_err this (handed_on err)) WorkerStopErrorObject \<longrightarrow>
          (\<exists>this' tr'. run (Suc fuel) h this tr = Some (this', tr', Promise (Fulfilled r))
             \<and> attempt this' = JNum (Fin 1)
             \<and> task_calls tr' = task_calls tr + 1
             \<and> done_calls tr' = done_calls tr + 1
             \<and> delays tr' = delays tr
             \<and> reports tr' = reports tr @ [normalize_err this (handed_on err)]))
       \<and> (\<not> truthy (lookup ps ''cause'') \<longrightarrow>
            instanceof (normalize_err this (handed_on (JObj WorkerStopErrorObject ps)))
              WorkerStopErrorObject)
       \<and> (task_behaviour h n = Throws (JObj ErrorObject ps') \<longrightarrow> retryable h this n)"
proof (intro conjI impI)
  assume "\<not> truthy (lookup ps ''cause'')"
  then show "instanceof (normalize_err this (handed_on (JObj WorkerStopErrorObject ps)))
              WorkerStopErrorObject"
    by (simp add: fatal_handed_on)
next
  assume "task_behaviour h n = Throws (JObj ErrorObject ps')"
  then show "retryable h this n"
    by (simp add: retryable_def attemptPromise_eq fatal_handed_on)
next
  assume a: "task_behaviour h (task_calls tr) = Returns v"
  from run_then_success[of this q 0 h tr v r fuel] assms(1,3) a
  obtain tr' where "run (Suc fuel) h this tr =
      Some (this\<lparr>attempt := increment (attempt this)\<rparr>, tr', Promise (Fulfilled r))"
    "task_calls tr' = task_calls tr + 1" "done_calls tr' = done_calls tr + 1"
    "reports tr' = reports tr" "delays tr' = delays tr"
    by auto
  then show "\<exists>this' tr'. run (Suc fuel) h this tr = Some (this', tr', Promise (Fulfilled r))
             \<and> attempt this' = JNum (Fin 1)
             \<and> task_calls tr' = task_calls tr + 1
             \<and> done_calls tr' = done_calls tr + 1
             \<and> delays tr' = delays tr \<and> reports tr' = reports tr"
    using assms(2) by (simp add: increment_def)
next
  assume a: "(\<forall>i<K. retryable h this (task_calls tr + i))
            \<and> task_behaviour h (task_calls tr + K) = Returns v"
  from run_then_success[of this q K h tr v r fuel] assms(1,3) a
  obtain tr' where t: "run (Suc K + fuel) h this tr =
      Some (((retry_state h ^^ K) this)\<lparr>attempt := increment ((increment ^^ K) (attempt this))\<rparr>,
            tr', Promise (Fulfilled r))"
    "task_calls tr' = task_calls tr + K + 1" "done_calls tr' = done_calls tr + 1"
    "reports tr' = reports tr @ map (\<lambda>i. normalize_err this (rejection h this (task_calls tr + i))) [0..<K]"
    "delays tr' = delays tr @ map (\<lambda>i. retry_delay_after h (retryDelay this) i) [0..<K]"
    by blast
  have "increment ((increment ^^ K) (attempt this)) = JNum (Fin (int K + 1))"
    using assms(2) by (simp add: increment_funpow increment_def)
  with t show "\<exists>this' tr'. run (Suc K + fuel) h this tr = Some (this', tr', Promise (Fulfilled r))
             \<and> attempt this' = JNum (Fin (int K + 1))
             \<and> task_calls tr' = task_calls tr + K + 1
             \<and> done_calls tr' = done_calls tr + 1
             \<and> length (reports tr') = length (reports tr) + K
             \<and> length (delays tr') = length (delays tr) + K"
    by simp
next
  assume a: "task_behaviour h (task_calls tr) = Throws err
            \<and> instanceof (normalize_err this (handed_on err)) WorkerStopErrorObject"
  then have tp: "attemptPromise h this (task_calls tr + 0) = Rejected (handed_on err)"
    by (simp add: attemptPromise_eq)
  from run_then_fatal[of this q 0 h tr "handed_on err" r fuel] assms(1,3) a tp
  obtain tr' where "run (Suc fuel) h this tr =
      Some (this\<lparr>attempt := increment (attempt this)\<rparr>, tr', Promise (Fulfilled r))"
    "task_calls tr' = task_calls tr + 1" "done_calls tr' = done_calls tr + 1"
    "reports tr' = reports tr @ [normalize_err this (handed_on err)]" "delays tr' = delays tr"
    by auto
  then show "\<exists>this' tr'. run (Suc fuel) h this tr = Some (this', tr', Promise (Fulfilled r))
             \<and> attempt this' = JNum (Fin 1)
             \<and> task_calls tr' = task_calls tr + 1
             \<and> done_calls tr' = done_calls tr + 1
             \<and> delays tr' = delays tr
             \<and> reports tr' = reports tr @ [normalize_err this (handed_on err)]"
    using assms(2) by (simp add: increment_def)
qed

text \<open>
  The claim as stated fails. A \<^verbatim>\<open>WorkerStopError\<close> that carries a generic
  \<^verbatim>\<open>cause\<close> is classified by that cause: the attempt is retried, the counter
  reaches 2 and a delay is applied. And when the first call of \<^verbatim>\<open>done\<close> throws,
  the attempt is retried although the task returned (counter at 2, one delay, one report)
  or failed fatally (two calls of the task, three reports).
\<close>

theorem attempts_counterexample:
  "map_option (\<lambda>(w, tr, r). (attempt w, task_calls tr, done_calls tr, delays tr, length (reports tr), r))
     (run 2 stop_with_cause_host example_worker [])
     = Some (JNum (Fin 2), 2, 1, [Fin 1], 1, Promise (Fulfilled JUndefined))
   \<and> map_option (\<lambda>(w, tr, r). (attempt w, task_calls tr, done_calls tr, delays tr, length (reports tr), r))
     (run 2 failing_done_host example_worker [])
     = Some (JNum (Fin 2), 2, 2, [Fin 1], 1, Promise (Fulfilled JUndefined))
   \<and> map_option (\<lambda>(w, tr, r). (attempt w, task_calls tr, done_calls tr, delays tr, length (reports tr), r))
     (run 2 fatal_failing_done_host example_worker [])
     = Some (JNum (Fin 2), 2, 2, [Fin 1], 3, Promise (Fulfilled JUndefined))"
  by code_simp

theorem attempts_reports_and_done_witness:
  "(\<exists>this' tr'. run 1 example_host example_worker [] = Some (this', tr', Promise (Fulfilled JUndefined))
      \<and> attempt this' = JNum (Fin 1) \<and> task_calls tr' = 1 \<and> done_calls tr' = 1
      \<and> delays tr' = [] \<and> reports tr' = [])
   \<and> (\<exists>this' tr'. run 3 (flaky_host 2) example_worker [] = Some (this', tr', Promise (Fulfilled JUndefined))
      \<and> attempt this' = JNum (Fin 3) \<and> task_calls tr' = 3 \<and> done_calls tr' = 1
      \<and> length (reports tr') = 2 \<and> length (delays tr') = 2)
   \<and> (\<exists>this' tr'. run 1 fatal_host example_worker [] = Some (this', tr', Promise (Fulfilled JUndefined))
      \<and> attempt this' = JNum (Fin 1) \<and> task_calls tr' = 1 \<and> done_calls tr' = 1
      \<and> delays tr' = [] \<and> reports tr' = [normalize_err example_worker (handed_on stop)])
   \<and> instanceof (normalize_err example_worker (handed_on stop)) WorkerStopErrorObject
   \<and> retryable (flaky_host 2) example_worker 1"
proof -
  have q: "queue example_worker = JStr ''a.b''" and a: "attempt example_worker = JNum (Fin 0)"
    by (simp_all add: example_worker_def)
  have d: "done_behaviour example_host (done_calls []) = DoneReturns JUndefined"
    "done_behaviour (flaky_host 2) (done_calls []) = DoneReturns JUndefined"
    "done_behaviour fatal_host (done_calls []) = DoneReturns JUndefined"
    by (simp_all add: example_host_def flaky_host_def fatal_host_def)
  have t1: "task_behaviour example_host (task_calls []) = Returns JUndefined"
    by (simp add: example_host_def)
  have s: "stop = JObj WorkerStopErrorObject [(''message'', JStr ''stop'')]"
    and nc: "\<not> truthy (lookup [(''message'', JStr ''stop'')] ''cause'')"
    by (simp_all add: stop_def)
  have b: "task_behaviour (flaky_host 2) 0 = Throws (JObj ErrorObject [(''message'', JStr ''boom'')])"
    "task_behaviour (flaky_host 2) 1 = Throws (JObj ErrorObject [(''message'', JStr ''boom'')])"
    by (simp_all add: flaky_host_def example_host_def boom_def)
  note T2 = attempts_reports_and_done[OF q a d(2), of JUndefined 0 2 stop
      "[(''message'', JStr ''stop'')]" _ "[(''message'', JStr ''boom'')]"]
  from T2[of 0] b(1) have r0: "retryable (flaky_host 2) example_worker 0" by blast
  from T2[of 1] b(2) have r1: "retryable (flaky_host 2) example_worker 1" by blast
  have t2: "(\<forall>i<2. retryable (flaky_host 2) example_worker (task_calls [] + i))
            \<and> task_behaviour (flaky_host 2) (task_calls [] + 2) = Returns JUndefined"
    using r0 r1 by (auto simp: less_Suc_eq numeral_2_eq_2 flaky_host_def example_host_def)
  note T3 = attempts_reports_and_done[OF q a d(3), of JUndefined 0 0 stop
      "[(''message'', JStr ''stop'')]" 0 "[]"]
  from T3 nc have f: "instanceof (normalize_err example_worker (handed_on stop)) WorkerStopErrorObject"
    unfolding s by blast
  have t3: "task_behaviour fatal_host (task_calls []) = Throws stop
            \<and> instanceof (normalize_err example_worker (handed_on stop)) WorkerStopErrorObject"
    using f by (simp add: fatal_host_def example_host_def)
  from attempts_reports_and_done[OF q a d(1), of JUndefined 0 0 stop "[]" 0 "[]"] t1
  have A: "\<exists>this' tr'. run 1 example_host example_worker [] = Some (this', tr', Promise (Fulfilled JUndefined))
      \<and> attempt this' = JNum (Fin 1) \<and> task_calls tr' = 1 \<and> done_calls tr' = 1
      \<and> delays tr' = [] \<and> reports tr' = []"
    by (simp del: run.simps)
  from T2[of 0] t2
  have B: "\<exists>this' tr'. run 3 (flaky_host 2) example_worker [] = Some (this', tr', Promise (Fulfilled JUndefined))
      \<and> attempt this' = JNum (Fin 3) \<and> task_calls tr' = 3 \<and> done_calls tr' = 1
      \<and> length (reports tr') = 2 \<and> length (delays tr') = 2"
    by (simp del: run.simps add: numeral_3_eq_3 numeral_2_eq_2)
  from T3 t3
  have C: "\<exists>this' tr'. run 1 fatal_host example_worker [] = Some (this', tr', Promise (Fulfilled JUndefined))
      \<and> attempt this' = JNum (Fin 1) \<and> task_calls tr' = 1 \<and> done_calls tr' = 1
      \<and> delays tr' = [] \<and> reports tr' = [normalize_err example_worker (handed_on stop)]"
    by (simp del: run.simps)
  from A B C f r1 show ?thesis by blast
qed

lemma terminal_logs_append [simp]:
  "terminal_logs (xs @ ys) = terminal_logs xs + terminal_logs ys"
  by (simp add: terminal_logs_def)

lemma terminal_logs_simps [simp]:
  "terminal_logs [] = 0"
  "terminal_logs (Log ''info'' ''Task complete'' # tr) = Suc (terminal_logs tr)"
  "terminal_logs (Log ''error'' ''Worker task fatally errored'' # tr) = Suc (terminal_logs tr)"
  "terminal_logs (Log ''info'' ''running task'' # tr) = terminal_logs tr"
  "terminal_logs (Log ''warn'' m # tr) = terminal_logs tr"
  "terminal_logs (Increment n t # tr) = terminal_logs tr"
  "terminal_logs (TimerStart n t # tr) = terminal_logs tr"
  "terminal_logs (TimerStop # tr) = terminal_logs tr"
  "terminal_logs (CallTask j # tr) = terminal_logs tr"
  "terminal_logs (CallDone # tr) = terminal_logs tr"
  "terminal_logs (Report e # tr) = terminal_logs tr"
  "terminal_logs (Delay d # tr) = terminal_logs tr"
  by (simp_all add: terminal_logs_def)

lemma terminal_logs_events [simp]:
  "terminal_logs (incMonitor h q n x) = 0" "terminal_logs (createTimer h q) = 0"
  "terminal_logs (timer_stop h) = 0" "terminal_logs (entry_events h q this) = 0"
  "terminal_logs (success_events h q) = 1" "terminal_logs (timeout_events h q e) = 0"
  "terminal_logs (fatal_events h q e) = 1" "terminal_logs (retry_events h q this e) = 0"
  by (simp_all add: incMonitor_def createTimer_def timer_stop_def entry_events_def
      success_events_def timeout_events_def fatal_events_def retry_events_def)

lemma attempt_task_Fulfilled_throws:
  assumes "attemptPromise h this (task_calls tr) = Fulfilled v"
    and "done_behaviour h (done_calls tr) = DoneThrows err"
  shows "attempt_task h q this tr =
     (if instanceof (normalize_err this err) WorkerStopErrorObject
      then (this\<lparr>attempt := increment (attempt this)\<rparr>,
            fst (call_done h (tr @ entry_events h q this @ success_events h q @ [CallDone]
                                 @ timeout_events h q err @ fatal_events h q (normalize_err this err))),
            snd (call_done h (tr @ entry_events h q this @ success_events h q @ [CallDone]
                                 @ timeout_events h q err @ fatal_events h q (normalize_err this err))))
      else (this\<lparr>attempt := increment (attempt this)\<rparr>,
            tr @ entry_events h q this @ success_events h q @ [CallDone] @ timeout_events h q err,
            Rejected (normalize_err this err)))"
  using assms
  by (simp add: attempt_task_def Let_def then_success_def call_done_def catch_chain
      entry_events_def success_events_def)

lemma attempt_task_trace:
  "\<exists>new. fst (snd (attempt_task h q this tr)) = tr @ new \<and> done_calls new = terminal_logs new"
proof (cases "attemptPromise h this (task_calls tr)")
  case (Fulfilled v)
  show ?thesis
  proof (cases "done_behaviour h (done_calls tr)")
    case (DoneReturns r)
    show ?thesis by (simp add: attempt_task_Fulfilled_done[OF Fulfilled DoneReturns])
  next
    case (DoneThrows err)
    show ?thesis by (simp add: attempt_task_Fulfilled_throws[OF Fulfilled DoneThrows] call_done_def)
  qed
next
  case (Rejected err)
  show ?thesis by (simp add: attempt_task_Rejected[OF Rejected] call_done_def)
next
  case Pending
  show ?thesis by (simp add: attempt_task_Pending[OF Pending])
qed

lemma finally_stop_trace:
  "\<exists>s. fst (finally_stop h t r) = t @ s \<and> done_calls s = 0 \<and> terminal_logs s = 0"
  by (cases "(h, t, r)" rule: finally_stop.cases) simp_all

lemma run_trace:
  "run fuel h this tr = Some (this', tr', r) \<Longrightarrow>
   \<exists>new. tr' = tr @ new \<and> done_calls new = terminal_logs new"
proof (induction fuel arbitrary: this tr this' tr' r)
  case 0
  then show ?case by simp
next
  case (Suc fuel)
  show ?case
  proof (cases "\<exists>q. queue this = JStr q")
    case False
    with Suc.prems have "tr' = tr" by (auto split: jsval.splits)
    then show ?thesis by simp
  next
    case True
    then obtain q where q: "queue this = JStr q" by blast
    obtain this1 tr1 p where at: "attempt_task h q this tr = (this1, tr1, p)"
      by (cases "attempt_task h q this tr") auto
    from attempt_task_trace[of h q this tr] at obtain new1 where
      n1: "tr1 = tr @ new1" "done_calls new1 = terminal_logs new1" by auto
    show ?thesis
    proof (cases "\<exists>err. p = Rejected err")
      case False
      with Suc.prems q at have "tr' = fst (finally_stop h tr1 (Promise p))"
        by (cases p) auto
      with finally_stop_trace[of h tr1 "Promise p"] n1 show ?thesis by auto
    next
      case True
      then obtain err where p: "p = Rejected err" by blast
      let ?tr2 = "tr1 @ [Log ''warn'' ''Task failed, retrying'']
                    @ incMonitor h q ''ponos.finish'' (Some [(''result'', JStr ''task-error'')])
                    @ [Report err, Delay (to_num (retryDelay this1))]"
      let ?this2 = "this1\<lparr>retryDelay := next_retryDelay h (retryDelay this1)\<rparr>"
      from Suc.prems q at p obtain this3 tr3 r3 where
        inner: "run fuel h ?this2 ?tr2 = Some (this3, tr3, r3)"
        and out: "tr' = fst (finally_stop h tr3 r3)"
        by (auto simp: Let_def split: option.splits)
      from Suc.IH[OF inner] obtain new3 where
        n3: "tr3 = ?tr2 @ new3" "done_calls new3 = terminal_logs new3" by blast
      from finally_stop_trace[of h tr3 r3] out obtain s where
        s: "tr' = tr3 @ s" "done_calls s = 0" "terminal_logs s = 0" by auto
      show ?thesis
        by (rule exI[of _ "new1 @ [Log ''warn'' ''Task failed, retrying'']
                    @ incMonitor h q ''ponos.finish'' (Some [(''result'', JStr ''task-error'')])
                    @ [Report err, Delay (to_num (retryDelay this1))] @ new3 @ s"])
           (simp add: s n3 n1)
    qed
  qed
qed

lemma unwind1_done:
  assumes "unwind1 h x = Some (this', tr', r)"
  shows "\<exists>this3 tr3 r3. x = Some (this3, tr3, r3) \<and> done_calls tr' = done_calls tr3
       \<and> (\<forall>v. r = Promise (Fulfilled v) \<longleftrightarrow> r3 = Promise (Fulfilled v))"
proof -
  from assms obtain this3 tr3 r3 where x: "x = Some (this3, tr3, r3)"
    by (cases x) (auto simp: unwind1_def)
  with assms have "tr' = fst (finally_stop h tr3 r3)" "r = snd (finally_stop h tr3 r3)"
    by (simp_all add: unwind1_def)
  then have "done_calls tr' = done_calls tr3
       \<and> (\<forall>v. r = Promise (Fulfilled v) \<longleftrightarrow> r3 = Promise (Fulfilled v))"
    by (cases "(h, tr3, r3)" rule: finally_stop.cases) auto
  with x show ?thesis by blast
qed

lemma run_done_once:
  assumes "done_behaviour h (done_calls tr) = DoneReturns v"
    and "run fuel h this tr = Some (this', tr', r)"
  shows "(done_calls tr' = done_calls tr + 1 \<and> r = Promise (Fulfilled v))
       \<or> (done_calls tr' = done_calls tr \<and> (\<forall>x. r \<noteq> Promise (Fulfilled x)))"
  using assms
proof (induction fuel arbitrary: this tr this' tr' r)
  case 0
  then show ?case by simp
next
  case (Suc fuel)
  show ?case
  proof (cases "\<exists>q. queue this = JStr q")
    case False
    with Suc.prems(2) have "tr' = tr \<and> r = Threw type_error" by (auto split: jsval.splits)
    then show ?thesis by simp
  next
    case True
    then obtain q where q: "queue this = JStr q" by blast
    show ?thesis
    proof (cases "attemptPromise h this (task_calls tr)")
      case (Fulfilled x)
      from Suc.prems(2) show ?thesis
        by (simp only: run_Suc_success[OF q Fulfilled Suc.prems(1)]) auto
    next
      case Pending
      from Suc.prems(2) show ?thesis
        by (simp only: run_Suc_pending[OF q Pending]) auto
    next
      case (Rejected err)
      show ?thesis
      proof (cases "instanceof (normalize_err this err) WorkerStopErrorObject")
        case True
        from Suc.prems(2) show ?thesis
          by (simp only: run_Suc_fatal[OF q Rejected True Suc.prems(1)]) auto
      next
        case False
        with Rejected have rt: "retryable h this (task_calls tr)" by (simp add: retryable_def)
        let ?tr2 = "tr @ retry_events h q this (rejection h this (task_calls tr))"
        from Suc.prems(2) have "unwind1 h (run fuel h (retry_state h this) ?tr2) = Some (this', tr', r)"
          by (simp only: run_Suc_retry[OF q rt])
        from unwind1_done[OF this] obtain this3 tr3 r3 where
          inner: "run fuel h (retry_state h this) ?tr2 = Some (this3, tr3, r3)"
          and eq: "done_calls tr' = done_calls tr3"
            "\<forall>v. r = Promise (Fulfilled v) \<longleftrightarrow> r3 = Promise (Fulfilled v)"
          by blast
        have d2: "done_behaviour h (done_calls ?tr2) = DoneReturns v"
          using Suc.prems(1) by simp
        from Suc.IH[OF d2 inner] eq show ?thesis by auto
      qed
    qed
  qed
qed

lemma unwind1_None: "unwind1 h None = None"
  by (simp add: unwind1_def)

lemma unwind_None: "(unwind1 h ^^ K) None = None"
  by (induction K) (simp_all add: unwind1_None)

lemma run_forever:
  assumes "queue this = JStr q" and "\<forall>i. retryable h this (task_calls tr + i)"
  shows "run fuel h this tr = None"
proof -
  from assms(2) have "\<forall>i<fuel. retryable h this (task_calls tr + i)" by simp
  from run_retries[OF assms(1) this] obtain new where
    "\<And>f. run (fuel + f) h this tr = (unwind1 h ^^ fuel) (run f h ((retry_state h ^^ fuel) this) (tr @ new))"
    by blast
  from this[of 0] show ?thesis by (simp add: unwind_None)
qed

text \<open>
  Claim C3, as the code has it. In every trace of \<^verbatim>\<open>run\<close> the calls of
  \<^verbatim>\<open>done\<close> are as many as the entries of the success handler
  (\<^verbatim>\<open>Task complete\<close>) and of the \<^verbatim>\<open>WorkerStopError\<close> handler
  (\<^verbatim>\<open>Worker task fatally errored\<close>) together: \<^verbatim>\<open>done\<close> is called there and
  nowhere else. If the completion callback returns, it is called at most once, and it is
  called exactly when the promise of \<^verbatim>\<open>run\<close> is fulfilled. That happens, given
  enough fuel, as soon as an attempt succeeds or fails fatally after any number of retried
  attempts; when every attempt is retried, \<^verbatim>\<open>run\<close> never settles, whatever the
  fuel.
\<close>

theorem done_at_most_once:
  "(run fuel h this tr = Some (this', tr', r) \<longrightarrow>
      (\<exists>new. tr' = tr @ new \<and> done_calls new = terminal_logs new))
   \<and> (done_behaviour h (done_calls tr) = DoneReturns v
        \<and> run fuel h this tr = Some (this', tr', r) \<longrightarrow>
      (done_calls tr' = done_calls tr + 1 \<and> r = Promise (Fulfilled v))
      \<or> (done_calls tr' = done_calls tr \<and> (\<forall>x. r \<noteq> Promise (Fulfilled x))))
   \<and> (queue this = JStr q \<and> done_behaviour h (done_calls tr) = DoneReturns v
        \<and> (\<forall>i<K. retryable h this (task_calls tr + i))
        \<and> (case attemptPromise h this (task_calls tr + K) of
              Fulfilled x \<Rightarrow> True
            | Rejected err \<Rightarrow> instanceof (normalize_err this err) WorkerStopErrorObject
            | Pending \<Rightarrow> False) \<longrightarrow>
      (\<exists>this'' tr''. run (Suc K + fuel) h this tr = Some (this'', tr'', Promise (Fulfilled v))
          \<and> done_calls tr'' = done_calls tr + 1))
   \<and> (queue this = JStr q \<and> (\<forall>i. retryable h this (task_calls tr + i)) \<longrightarrow>
      run fuel h this tr = None)"
proof (intro conjI impI)
  assume "run fuel h this tr = Some (this', tr', r)"
  then show "\<exists>new. tr' = tr @ new \<and> done_calls new = terminal_logs new"
    by (rule run_trace)
next
  assume "done_behaviour h (done_calls tr) = DoneReturns v
        \<and> run fuel h this tr = Some (this', tr', r)"
  then show "(done_calls tr' = done_calls tr + 1 \<and> r = Promise (Fulfilled v))
      \<or> (done_calls tr' = done_calls tr \<and> (\<forall>x. r \<noteq> Promise (Fulfilled x)))"
    using run_done_once by blast
next
  assume a: "queue this = JStr q \<and> done_behaviour h (done_calls tr) = DoneReturns v
        \<and> (\<forall>i<K. retryable h this (task_calls tr + i))
        \<and> (case attemptPromise h this (task_calls tr + K) of
              Fulfilled x \<Rightarrow> True
            | Rejected err \<Rightarrow> instanceof (normalize_err this err) WorkerStopErrorObject
            | Pending \<Rightarrow> False)"
  show "\<exists>this'' tr''. run (Suc K + fuel) h this tr = Some (this'', tr'', Promise (Fulfilled v))
          \<and> done_calls tr'' = done_calls tr + 1"
  proof (cases "attemptPromise h this (task_calls tr + K)")
    case (Fulfilled x)
    then have "task_behaviour h (task_calls tr + K) = Returns x"
      by (simp add: attemptPromise_Fulfilled_iff)
    with a run_then_success[of this q K h tr x v fuel] show ?thesis by blast
  next
    case (Rejected err)
    with a have "instanceof (normalize_err this err) WorkerStopErrorObject" by simp
    with a Rejected run_then_fatal[of this q K h tr err v fuel] show ?thesis by blast
  next
    case Pending
    with a show ?thesis by simp
  qed
next
  assume "queue this = JStr q \<and> (\<forall>i. retryable h this (task_calls tr + i))"
  then show "run fuel h this tr = None" using run_forever by blast
qed

text \<open>
  The claim as stated fails: a task that never settles, with no timeout armed, leaves the
  promise of \<^verbatim>\<open>run\<close> pending with no call of \<^verbatim>\<open>done\<close>; and when the first
  call of \<^verbatim>\<open>done\<close> throws, the attempt is retried and \<^verbatim>\<open>done\<close> is
  called a second time.
\<close>

theorem done_exactly_once_counterexample:
  "map_option (\<lambda>(w, tr, r). (done_calls tr, r)) (run 1 stalled_host example_worker [])
     = Some (0, Promise Pending)
   \<and> map_option (\<lambda>(w, tr, r). (done_calls tr, task_calls tr, r))
        (run 2 failing_done_host example_worker [])
     = Some (2, 2, Promise (Fulfilled JUndefined))"
  by code_simp

theorem done_at_most_once_witness:
  "run 1 example_host example_worker []
     = Some (example_worker\<lparr>attempt := JNum (Fin 1)\<rparr>,
             [Log ''info'' ''running task'', CallTask (JObj PlainObject [(''tid'', JStr ''t7'')]),
              Log ''info'' ''Task complete'', CallDone],
             Promise (Fulfilled JUndefined))
   \<and> (\<exists>new. [Log ''info'' ''running task'', CallTask (JObj PlainObject [(''tid'', JStr ''t7'')]),
               Log ''info'' ''Task complete'', CallDone] = [] @ new
          \<and> done_calls new = terminal_logs new \<and> done_calls new = done_calls [] + 1)
   \<and> (\<exists>this'' tr''. run (Suc 2 + 0) (flaky_host 2) example_worker []
          = Some (this'', tr'', Promise (Fulfilled JUndefined))
        \<and> done_calls tr'' = done_calls [] + 1)
   \<and> run 7 always_failing_host example_worker [] = None"
proof -
  let ?w = "example_worker\<lparr>attempt := JNum (Fin 1)\<rparr>"
  let ?t = "[Log ''info'' ''running task'', CallTask (JObj PlainObject [(''tid'', JStr ''t7'')]),
             Log ''info'' ''Task complete'', CallDone]"
  have r1: "run 1 example_host example_worker [] = Some (?w, ?t, Promise (Fulfilled JUndefined))"
    by code_simp
  have d: "done_behaviour example_host (done_calls []) = DoneReturns JUndefined"
    "done_behaviour (flaky_host 2) (done_calls []) = DoneReturns JUndefined"
    by (simp_all add: example_host_def flaky_host_def)
  have q: "queue example_worker = JStr ''a.b''" by (simp add: example_worker_def)
  note T1 = done_at_most_once[of 1 example_host example_worker "[]" ?w ?t
      "Promise (Fulfilled JUndefined)" JUndefined "''a.b''" 0]
  from T1 r1 obtain new where n: "?t = [] @ new" "done_calls new = terminal_logs new" by blast
  from T1 r1 d(1) have "done_calls ?t = done_calls [] + 1" by blast
  with n have A: "\<exists>new. ?t = [] @ new
          \<and> done_calls new = terminal_logs new \<and> done_calls new = done_calls [] + 1"
    by auto
  have nb: "\<not> instanceof (normalize_err example_worker (handed_on boom)) WorkerStopErrorObject"
    by code_simp
  have r0: "\<And>i. i < 2 \<Longrightarrow> retryable (flaky_host 2) example_worker i"
    using nb by (simp add: retryable_def attemptPromise_eq flaky_host_def example_host_def)
  have rs: "\<forall>i<2. retryable (flaky_host 2) example_worker (task_calls [] + i)"
    using r0 by simp
  have tp: "attemptPromise (flaky_host 2) example_worker (task_calls [] + 2) = Fulfilled JUndefined"
    by (simp add: attemptPromise_eq flaky_host_def example_host_def)
  have hyp: "queue example_worker = JStr ''a.b''
        \<and> done_behaviour (flaky_host 2) (done_calls []) = DoneReturns JUndefined
        \<and> (\<forall>i<2. retryable (flaky_host 2) example_worker (task_calls [] + i))
        \<and> (case attemptPromise (flaky_host 2) example_worker (task_calls [] + 2) of
              Fulfilled x \<Rightarrow> True
            | Rejected err \<Rightarrow> instanceof (normalize_err example_worker err) WorkerStopErrorObject
            | Pending \<Rightarrow> False)"
    using q d(2) rs tp by simp
  from done_at_most_once[of 0 "flaky_host 2" example_worker "[]" ?w ?t
      "Promise (Fulfilled JUndefined)" JUndefined "''a.b''" 2] hyp
  have B: "\<exists>this'' tr''. run (Suc 2 + 0) (flaky_host 2) example_worker []
          = Some (this'', tr'', Promise (Fulfilled JUndefined))
        \<and> done_calls tr'' = done_calls [] + 1"
    by blast
  have all: "\<forall>i. retryable always_failing_host example_worker (task_calls [] + i)"
    using nb by (simp add: retryable_def attemptPromise_eq always_failing_host_def example_host_def)
  from done_at_most_once[of 7 always_failing_host example_worker "[]" ?w ?t
      "Promise (Fulfilled JUndefined)" JUndefined "''a.b''" 0] q all
  have C: "run 7 always_failing_host example_worker [] = None" by blast
  from r1 A B C show ?thesis by blast
qed

section \<open>The retry delay\<close>

lemma max_retry_delay_Fin: "\<exists>m. max_retry_delay h = Fin m"
proof (cases "parseInt (process_env (WORKER_MAX_RETRY_DELAY h)) 0")
  case (Fin n)
  then show ?thesis by (simp add: max_retry_delay_def js_or_def)
next
  case NaN
  then show ?thesis by (simp add: max_retry_delay_def js_or_def)
qed

lemma parseInt_undefined: "parseInt JUndefined 0 = NaN"
  by code_simp

lemma max_retry_delay_unset: "WORKER_MAX_RETRY_DELAY h = None \<Longrightarrow> max_retry_delay h = Fin 0"
  by (simp add: max_retry_delay_def js_or_def parseInt_undefined del: parseInt.simps)

lemma next_retryDelay_num:
  "max_retry_delay h = Fin m \<Longrightarrow> to_num d = Fin c \<Longrightarrow>
   to_num (next_retryDelay h d) = Fin (if c < m then c * 2 else c)"
  by (simp add: next_retryDelay_def)

lemma retry_delay_after_backoff:
  assumes "max_retry_delay h = Fin m" and "to_num d = Fin c"
  shows "retry_delay_after h d i = Fin (backoff m c i)"
proof (induction i)
  case 0
  show ?case using assms(2) by (simp add: retry_delay_after_def)
next
  case (Suc i)
  from Suc have "to_num ((next_retryDelay h ^^ i) d) = Fin (backoff m c i)"
    by (simp add: retry_delay_after_def)
  from next_retryDelay_num[OF assms(1) this] show ?case
    by (simp add: retry_delay_after_def)
qed

lemma backoff_nonneg: "0 \<le> c \<Longrightarrow> 0 \<le> backoff m c i"
  by (induction i) simp_all

lemma backoff_mono: "0 \<le> c \<Longrightarrow> backoff m c i \<le> backoff m c (Suc i)"
  using backoff_nonneg[of c m i] by simp

lemma backoff_stable: "m \<le> backoff m c i \<Longrightarrow> backoff m c (i + j) = backoff m c i"
  by (induction j) simp_all

lemma backoff_bound: "c \<le> m \<Longrightarrow> 0 < m \<Longrightarrow> backoff m c i < 2 * m"
  by (induction i) auto

lemma backoff_at_least_max: "m \<le> c \<Longrightarrow> backoff m c i = c"
  by (induction i) simp_all

lemma backoff_doubles:
  assumes "0 < c" and "\<forall>k<i. c * 2 ^ k < m"
  shows "backoff m c i = c * 2 ^ i"
  using assms(2)
proof (induction i)
  case 0
  show ?case by simp
next
  case (Suc i)
  then have "backoff m c i = c * 2 ^ i" by simp
  moreover from Suc.prems have "c * 2 ^ i < m" by simp
  ultimately show ?case by simp
qed

lemma power_below:
  assumes "0 < (c::int)" and "k \<le> i" and "c * 2 ^ i < m"
  shows "c * 2 ^ k < m"
proof -
  have "(2::int) ^ k \<le> 2 ^ i" using assms(2) by (simp add: power_increasing)
  then have "c * 2 ^ k \<le> c * 2 ^ i" using assms(1) by (simp add: mult_left_mono)
  with assms(3) show ?thesis by simp
qed

lemma backoff_doubles_below:
  assumes "0 < c" and "c * 2 ^ i < m"
  shows "backoff m c (Suc i) = c * 2 ^ Suc i"
proof -
  have "\<forall>k<Suc i. c * 2 ^ k < m"
    using power_below[OF assms(1) _ assms(2)] by simp
  from backoff_doubles[OF assms(1) this] show ?thesis .
qed

lemma backoff_min:
  assumes "0 < c" and "m = c * 2 ^ j"
  shows "backoff m c i = min (c * 2 ^ i) m"
proof (cases "i \<le> j")
  case True
  have "\<forall>k<i. c * 2 ^ k < m"
  proof (intro allI impI)
    fix k assume "k < i"
    with True have "k < j" by simp
    then have "(2::int) ^ k < 2 ^ j" by (simp add: power_strict_increasing)
    with assms show "c * 2 ^ k < m" by simp
  qed
  from backoff_doubles[OF assms(1) this] have b: "backoff m c i = c * 2 ^ i" .
  from True have "(2::int) ^ i \<le> 2 ^ j" by (simp add: power_increasing)
  with assms have "c * 2 ^ i \<le> m" by (simp add: mult_left_mono)
  with b show ?thesis by simp
next
  case False
  then obtain d where d: "i = j + d" using le_Suc_ex[of j i] by auto
  have "\<forall>k<j. c * 2 ^ k < m"
  proof (intro allI impI)
    fix k assume "k < j"
    then have "(2::int) ^ k < 2 ^ j" by (simp add: power_strict_increasing)
    with assms show "c * 2 ^ k < m" by simp
  qed
  from backoff_doubles[OF assms(1) this] assms(2) have bj: "backoff m c j = m" by simp
  then have "backoff m c i = m" using backoff_stable[of m c j d] d by simp
  moreover from False have "(2::int) ^ j \<le> 2 ^ i" by (simp add: power_increasing)
  with assms have "m \<le> c * 2 ^ i" by (simp add: mult_left_mono)
  ultimately show ?thesis by simp
qed

text \<open>
  Claim C1, as the code has it. With the maximum \<open>m\<close> read from
  \<^verbatim>\<open>WORKER_MAX_RETRY_DELAY\<close> (0 when unset) and a current delay \<open>c\<close>, the next delay
  is \<open>c * 2\<close> when \<open>c < m\<close> and \<open>c\<close> otherwise: it is not clamped to \<open>m\<close>, and
  with \<open>m = 0\<close> it never doubles. So, from an initial delay \<open>c\<close>, the delay after
  \<open>i + 1\<close> updates is \<open>c * 2 ^ (i + 1)\<close> as long as \<open>c * 2 ^ i < m\<close>; it stays \<open>c\<close>
  when \<open>m \<le> c\<close>; and it is \<open>min (c * 2 ^ i) m\<close> when \<open>m\<close> is \<open>c\<close> times a power of
  two. For a task whose first \<open>K\<close> attempts are retried and whose next attempt returns, the
  delays applied are these, in order.
\<close>

theorem retry_delay_step:
  assumes "max_retry_delay h = Fin m" and "to_num d = Fin c"
  shows "to_num (next_retryDelay h d) = Fin (if c < m then c * 2 else c)
       \<and> (WORKER_MAX_RETRY_DELAY h = None \<longrightarrow> m = 0)
       \<and> retry_delay_after h d 0 = Fin c
       \<and> (0 < c \<and> c * 2 ^ i < m \<longrightarrow> retry_delay_after h d (Suc i) = Fin (c * 2 ^ Suc i))
       \<and> (m \<le> c \<longrightarrow> retry_delay_after h d i = Fin c)
       \<and> (0 < c \<and> m = c * 2 ^ j \<longrightarrow> retry_delay_after h d i = Fin (min (c * 2 ^ i) m))
       \<and> (queue this = JStr q \<and> retryDelay this = d
            \<and> (\<forall>n<K. retryable h this (task_calls tr + n))
            \<and> task_behaviour h (task_calls tr + K) = Returns v
            \<and> done_behaviour h (done_calls tr) = DoneReturns r \<longrightarrow>
          (\<exists>this' tr'. run (Suc K + fuel) h this tr = Some (this', tr', Promise (Fulfilled r))
             \<and> delays tr' = delays tr @ map (retry_delay_after h d) [0..<K]))"
proof (intro conjI impI)
  show "to_num (next_retryDelay h d) = Fin (if c < m then c * 2 else c)"
    by (rule next_retryDelay_num[OF assms])
  show "retry_delay_after h d 0 = Fin c"
    using retry_delay_after_backoff[OF assms, of 0] by simp
next
  assume "WORKER_MAX_RETRY_DELAY h = None"
  from max_retry_delay_unset[OF this] assms(1) show "m = 0" by simp
next
  assume "0 < c \<and> c * 2 ^ i < m"
  then show "retry_delay_after h d (Suc i) = Fin (c * 2 ^ Suc i)"
    using retry_delay_after_backoff[OF assms, of "Suc i"] backoff_doubles_below[of c i m]
    by simp
next
  assume "m \<le> c"
  then show "retry_delay_after h d i = Fin c"
    using retry_delay_after_backoff[OF assms, of i] backoff_at_least_max[of m c i] by simp
next
  assume "0 < c \<and> m = c * 2 ^ j"
  then show "retry_delay_after h d i = Fin (min (c * 2 ^ i) m)"
    using retry_delay_after_backoff[OF assms, of i] backoff_min[of c m j i] by simp
next
  assume a: "queue this = JStr q \<and> retryDelay this = d
            \<and> (\<forall>n<K. retryable h this (task_calls tr + n))
            \<and> task_behaviour h (task_calls tr + K) = Returns v
            \<and> done_behaviour h (done_calls tr) = DoneReturns r"
  with run_then_success[of this q K h tr v r fuel]
  show "\<exists>this' tr'. run (Suc K + fuel) h this tr = Some (this', tr', Promise (Fulfilled r))
             \<and> delays tr' = delays tr @ map (retry_delay_after h d) [0..<K]"
    by blast
qed

text \<open>
  The formula of the claim fails: with a maximum of 5 the delay 3 becomes 6, not
  \<open>min (3 * 2) 5\<close>; with no maximum set the delay 1 stays 1, not \<open>1 * 2\<close>.
\<close>

theorem retry_delay_min_counterexample:
  "max_retry_delay backoff_host = Fin 5
   \<and> next_retryDelay backoff_host (JNum (Fin 3)) = JNum (Fin 6)
   \<and> next_retryDelay backoff_host (JNum (Fin 3)) \<noteq> JNum (Fin (min (3 * 2) 5))
   \<and> max_retry_delay example_host = Fin 0
   \<and> next_retryDelay example_host (JNum (Fin 1)) = JNum (Fin 1)
   \<and> next_retryDelay example_host (JNum (Fin 1)) \<noteq> JNum (Fin (1 * 2))"
  by code_simp

text \<open>
  Claim C2, as the code has it. The retry delay after \<open>i\<close> updates is
  \<open>backoff m c i\<close>; from a non-negative initial delay it never decreases; once it is at or
  above the maximum it never changes again; it can exceed the maximum, but from an initial
  delay at most the (positive) maximum it stays below twice the maximum. For a task whose
  first \<open>K\<close> attempts are retried and whose next attempt returns, the delays applied are
  these, in order.
\<close>

theorem retry_delay_monotone:
  assumes "max_retry_delay h = Fin m" and "to_num d = Fin c"
  shows "retry_delay_after h d i = Fin (backoff m c i)
       \<and> (0 \<le> c \<longrightarrow> backoff m c i \<le> backoff m c (Suc i))
       \<and> (m \<le> backoff m c i \<longrightarrow> backoff m c (i + j) = backoff m c i)
       \<and> (c \<le> m \<and> 0 < m \<longrightarrow> backoff m c i < 2 * m)
       \<and> (queue this = JStr q \<and> retryDelay this = d
            \<and> (\<forall>n<K. retryable h this (task_calls tr + n))
            \<and> task_behaviour h (task_calls tr + K) = Returns v
            \<and> done_behaviour h (done_calls tr) = DoneReturns r \<longrightarrow>
          (\<exists>this' tr'. run (Suc K + fuel) h this tr = Some (this', tr', Promise (Fulfilled r))
             \<and> delays tr' = delays tr @ map (\<lambda>n. Fin (backoff m c n)) [0..<K]))"
proof (intro conjI impI)
  show "retry_delay_after h d i = Fin (backoff m c i)"
    by (rule retry_delay_after_backoff[OF assms])
next
  assume "0 \<le> c" then show "backoff m c i \<le> backoff m c (Suc i)" by (rule backoff_mono)
next
  assume "m \<le> backoff m c i" then show "backoff m c (i + j) = backoff m c i"
    by (rule backoff_stable)
next
  assume "c \<le> m \<and> 0 < m" then show "backoff m c i < 2 * m" by (simp add: backoff_bound)
next
  assume a: "queue this = JStr q \<and> retryDelay this = d
            \<and> (\<forall>n<K. retryable h this (task_calls tr + n))
            \<and> task_behaviour h (task_calls tr + K) = Returns v
            \<and> done_behaviour h (done_calls tr) = DoneReturns r"
  have "map (retry_delay_after h d) [0..<K] = map (\<lambda>n. Fin (backoff m c n)) [0..<K]"
    by (simp add: retry_delay_after_backoff[OF assms])
  with a run_then_success[of this q K h tr v r fuel]
  show "\<exists>this' tr'. run (Suc K + fuel) h this tr = Some (this', tr', Promise (Fulfilled r))
             \<and> delays tr' = delays tr @ map (\<lambda>n. Fin (backoff m c n)) [0..<K]"
    by auto
qed

text \<open>
  The claim as stated fails: with an initial delay of 3 and a maximum of 5, a task that fails
  three times is retried after 3, 6 and 6 milliseconds: the delay has passed the maximum and
  exceeds it on every later retry.
\<close>

theorem retry_delay_exceeds_max_counterexample:
  "max_retry_delay backoff_host = Fin 5
   \<and> map_option (\<lambda>(tr, res). delays tr) (new_Worker 4 backoff_host example_opts)
     = Some [Fin 3, Fin 6, Fin 6]"
  by code_simp

theorem retry_delay_step_witness:
  "to_num (next_retryDelay backoff_host (JStr ''3'')) = Fin 6
   \<and> retry_delay_after backoff_host (JStr ''3'') 0 = Fin 3
   \<and> retry_delay_after backoff_host (JStr ''3'') (Suc 0) = Fin (3 * 2 ^ Suc 0)
   \<and> retry_delay_after example_host (JNum (Fin 1)) 4 = Fin 1
   \<and> retry_delay_after backoff_host (JNum (Fin 5)) 2 = Fin (min (5 * 2 ^ 2) 5)
   \<and> (\<exists>this' tr'. run (Suc 3 + 0) backoff_host (example_worker\<lparr>retryDelay := JStr ''3''\<rparr>) []
          = Some (this', tr', Promise (Fulfilled JUndefined))
        \<and> delays tr' = delays [] @ map (retry_delay_after backoff_host (JStr ''3'')) [0..<3])"
proof -
  let ?w = "example_worker\<lparr>retryDelay := JStr ''3''\<rparr>"
  have m: "max_retry_delay backoff_host = Fin 5" "max_retry_delay example_host = Fin 0"
    by code_simp+
  have d: "to_num (JStr ''3'') = Fin 3" "to_num (JNum (Fin 1)) = Fin 1" "to_num (JNum (Fin 5)) = Fin 5"
    by code_simp+
  have nb: "\<not> instanceof (normalize_err ?w (handed_on boom)) WorkerStopErrorObject" by code_simp
  have hyp: "queue ?w = JStr ''a.b'' \<and> retryDelay ?w = JStr ''3''
            \<and> (\<forall>n<3. retryable backoff_host ?w (task_calls [] + n))
            \<and> task_behaviour backoff_host (task_calls [] + 3) = Returns JUndefined
            \<and> done_behaviour backoff_host (done_calls []) = DoneReturns JUndefined"
    using nb by (simp add: retryable_def attemptPromise_eq backoff_host_def example_host_def
        example_worker_def)
  note T1 = retry_delay_step[OF m(1) d(1), where i=0 and j=0 and this="?w" and q="''a.b''" and K=3
      and tr="[]" and v=JUndefined and r=JUndefined and fuel=0]
  note T2 = retry_delay_step[OF m(2) d(2), where i=4 and j=0 and this="?w" and q="''a.b''" and K=3
      and tr="[]" and v=JUndefined and r=JUndefined and fuel=0]
  note T3 = retry_delay_step[OF m(1) d(3), where i=2 and j=0 and this="?w" and q="''a.b''" and K=3
      and tr="[]" and v=JUndefined and r=JUndefined and fuel=0]
  from T1 have A: "to_num (next_retryDelay backoff_host (JStr ''3'')) = Fin 6
     \<and> retry_delay_after backoff_host (JStr ''3'') 0 = Fin 3
     \<and> retry_delay_after backoff_host (JStr ''3'') (Suc 0) = Fin (3 * 2 ^ Suc 0)"
    by simp
  from T1 hyp have B: "\<exists>this' tr'. run (Suc 3 + 0) backoff_host ?w []
          = Some (this', tr', Promise (Fulfilled JUndefined))
        \<and> delays tr' = delays [] @ map (retry_delay_after backoff_host (JStr ''3'')) [0..<3]"
    by blast
  from T2 have C: "retry_delay_after example_host (JNum (Fin 1)) 4 = Fin 1" by simp
  from T3 have D: "retry_delay_after backoff_host (JNum (Fin 5)) 2 = Fin (min (5 * 2 ^ 2) 5)"
    by simp
  from A B C D show ?thesis by blast
qed

theorem retry_delay_monotone_witness:
  "retry_delay_after backoff_host (JStr ''3'') 2 = Fin (backoff 5 3 2)
   \<and> backoff 5 3 2 \<le> backoff 5 3 (Suc 2)
   \<and> backoff 5 3 (2 + 4) = backoff 5 3 2
   \<and> backoff 5 3 2 < 2 * 5
   \<and> backoff 5 3 2 = 6
   \<and> (\<exists>this' tr'. run (Suc 3 + 0) backoff_host (example_worker\<lparr>retryDelay := JStr ''3''\<rparr>) []
          = Some (this', tr', Promise (Fulfilled JUndefined))
        \<and> delays tr' = delays [] @ map (\<lambda>n. Fin (backoff 5 3 n)) [0..<3])"
proof -
  let ?w = "example_worker\<lparr>retryDelay := JStr ''3''\<rparr>"
  have m: "max_retry_delay backoff_host = Fin 5" by code_simp
  have d: "to_num (JStr ''3'') = Fin 3" by code_simp
  have b: "backoff 5 3 2 = 6" by code_simp
  have nb: "\<not> instanceof (normalize_err ?w (handed_on boom)) WorkerStopErrorObject" by code_simp
  have hyp: "queue ?w = JStr ''a.b'' \<and> retryDelay ?w = JStr ''3''
            \<and> (\<forall>n<3. retryable backoff_host ?w (task_calls [] + n))
            \<and> task_behaviour backoff_host (task_calls [] + 3) = Returns JUndefined
            \<and> done_behaviour backoff_host (done_calls []) = DoneReturns JUndefined"
    using nb by (simp add: retryable_def attemptPromise_eq backoff_host_def example_host_def
        example_worker_def)
  note T = retry_delay_monotone[OF m d, where i=2 and j=4 and this="?w" and q="''a.b''" and K=3
      and tr="[]" and v=JUndefined and r=JUndefined and fuel=0]
  from T b have A: "retry_delay_after backoff_host (JStr ''3'') 2 = Fin (backoff 5 3 2)
     \<and> backoff 5 3 2 \<le> backoff 5 3 (Suc 2)
     \<and> backoff 5 3 (2 + 4) = backoff 5 3 2
     \<and> backoff 5 3 2 < 2 * 5"
    by simp
  from T hyp have B: "\<exists>this' tr'. run (Suc 3 + 0) backoff_host ?w []
          = Some (this', tr', Promise (Fulfilled JUndefined))
        \<and> delays tr' = delays [] @ map (\<lambda>n. Fin (backoff 5 3 n)) [0..<3]"
    by blast
  from A B b show ?thesis by blast
qed

section \<open>The classification of errors\<close>







end
